theory Spec2Isabelle
  imports Main "HOL-Library.Sublist" "HOL-Library.Word"
begin

section \<open>Strings\<close>

text \<open>
  JavaScript strings are modelled as \<^typ>\<open>string\<close>: one \<^typ>\<open>char\<close> stands for one
  code unit. The URLs and emoji names the program handles are ASCII.
\<close>

text \<open>\<^verbatim>\<open>s.includes(p)\<close>: \<open>p\<close> occurs in \<open>s\<close> as a contiguous substring.\<close>

fun includes_str :: "string \<Rightarrow> string \<Rightarrow> bool" where
  "includes_str [] p = (p = [])"
| "includes_str (c # cs) p = (prefix p (c # cs) \<or> includes_str cs p)"

text \<open>The character class \<^verbatim>\<open>\d\<close> of a JavaScript regular expression.\<close>

definition isDigit :: "char \<Rightarrow> bool" where
  "isDigit c = (c \<in> set ''0123456789'')"

text \<open>
  \<^verbatim>\<open>src.replace(/size=\d+/, 'size=512')\<close>: the leftmost place where \<^verbatim>\<open>size=\<close> is followed
  by a digit is found, the longest run of digits after it is taken (the quantifier is
  greedy), and that match alone is replaced (the expression has no \<^verbatim>\<open>g\<close> flag).
  \<open>sizeMatch t\<close>: the expression matches at the start of \<open>t\<close>.
\<close>

definition sizeMatch :: "string \<Rightarrow> bool" where
  "sizeMatch t = (prefix ''size='' t \<and> takeWhile isDigit (drop 5 t) \<noteq> [])"

fun replaceSize :: "string \<Rightarrow> string" where
  "replaceSize [] = []"
| "replaceSize (c # cs) =
     (if sizeMatch (c # cs) then ''size=512'' @ dropWhile isDigit (drop 5 (c # cs))
      else c # replaceSize cs)"

text \<open>\<^verbatim>\<open>name.replace(/^:/, '')\<close> and \<^verbatim>\<open>name.replace(/:$/, '')\<close>.\<close>

definition stripLeadingColon :: "string \<Rightarrow> string" where
  "stripLeadingColon s = (case s of [] \<Rightarrow> [] | c # cs \<Rightarrow> if c = CHR '':'' then cs else s)"

definition stripTrailingColon :: "string \<Rightarrow> string" where
  "stripTrailingColon s = (if s \<noteq> [] \<and> last s = CHR '':'' then butlast s else s)"

text \<open>\<^verbatim>\<open>name.replace(/[^a-zA-Z0-9_-]/g, '_')\<close>.\<close>

definition isFileNameChar :: "char \<Rightarrow> bool" where
  "isFileNameChar c =
     (c \<in> set ''abcdefghijklmnopqrstuvwxyzABCDEFGHIJKLMNOPQRSTUVWXYZ0123456789_-'')"

definition replaceInvalidChars :: "string \<Rightarrow> string" where
  "replaceInvalidChars s = map (\<lambda>c. if isFileNameChar c then c else CHR ''_'') s"

text \<open>Template literals print a number in decimal.\<close>

fun decimal :: "nat \<Rightarrow> string" where
  "decimal n =
     (if n < 10 then [''0123456789'' ! n]
      else decimal (n div 10) @ [''0123456789'' ! (n mod 10)])"

section \<open>The collector: \<open>extractEmojiUrls\<close>\<close>

subsection \<open>The page as the collector sees it\<close>

text \<open>
  An \<^verbatim>\<open>img\<close> element: its \<^verbatim>\<open>src\<close> and its \<^verbatim>\<open>alt\<close> text (the empty string when the
  element has none). The \<^verbatim>\<open>src\<close> attribute the selector tests and the \<^verbatim>\<open>src\<close> property
  the callback reads are taken to be the same absolute URL.
\<close>

record img =
  src :: string
  alt :: string

text \<open>
  What the section shows at one scan: the \<^verbatim>\<open>img\<close> elements inside it, in document order,
  and the class list of its \<^verbatim>\<open>nextElementSibling\<close> (\<open>None\<close> when there is none). Both are
  read in the same synchronous stretch of the loop body.
\<close>

record view =
  imgs :: "img list"
  nextElementSibling :: "string list option"

text \<open>
  The page: whether the two \<^verbatim>\<open>querySelector\<close> calls find their element, and what the
  section shows at the scan of each round. The browser decides the latter; the round index
  is the number of scrolls (each followed by the settle delay) issued so far.
\<close>

record page =
  emojiPickerContainer :: bool
  serverEmojiSection :: bool
  sectionAt :: "nat \<Rightarrow> view"

text \<open>An element of the returned array.\<close>

record emoji =
  url :: string
  name :: string

text \<open>What the loop does to the page and the browser console, in order.\<close>

datatype event =
    LogAttempt nat nat
  | LogReachedNext
  | LogNoNewEmojis
  | ScrollBy nat
  | Wait nat

text \<open>
  The variables of the function. The \<^verbatim>\<open>Set\<close> is its list of members in insertion order
  (a JavaScript \<^verbatim>\<open>Set\<close> keeps that order), without repetition.
\<close>

record cstate =
  emojiData :: "string list"
  emojisWithNames :: "emoji list"
  previousEmojiCount :: nat
  scrollAttempts :: nat
  noNewEmojisCount :: nat
  effects :: "event list"

definition maxScrollAttempts :: nat where
  "maxScrollAttempts = 50"

definition scrollIncrement :: nat where
  "scrollIncrement = 200"

definition initialState :: cstate where
  "initialState =
     \<lparr>emojiData = [], emojisWithNames = [], previousEmojiCount = 0, scrollAttempts = 0,
      noNewEmojisCount = 0, effects = []\<rparr>"

subsection \<open>One thumbnail\<close>

text \<open>The URL in high quality, with the animated flag kept.\<close>

definition highQualitySrc :: "string \<Rightarrow> string" where
  "highQualitySrc s =
     (let isAnimated = includes_str s ''animated=true'';
          s' = replaceSize s
      in if isAnimated \<and> \<not> includes_str s' ''animated=true'' then s' @ ''&animated=true''
         else s')"

definition cleanName :: "string \<Rightarrow> string" where
  "cleanName a = replaceInvalidChars (stripTrailingColon (stripLeadingColon a))"

text \<open>The object \<^verbatim>\<open>{ url: src, name }\<close> the callback builds for one \<^verbatim>\<open>img\<close>.\<close>

definition emojiDescriptor :: "img \<Rightarrow> emoji" where
  "emojiDescriptor e = \<lparr>url = highQualitySrc (src e), name = cleanName (alt e)\<rparr>"

text \<open>The callback of \<^verbatim>\<open>emojis.forEach\<close>: the descriptor is kept when its URL is new.\<close>

definition scanEmoji :: "cstate \<Rightarrow> img \<Rightarrow> cstate" where
  "scanEmoji st e =
     (let d = emojiDescriptor e
      in if url d \<in> set (emojiData st) then st
         else st\<lparr>emojiData := emojiData st @ [url d],
                 emojisWithNames := emojisWithNames st @ [d]\<rparr>)"

text \<open>\<^verbatim>\<open>serverEmojiSection.querySelectorAll('img[src*="cdn.discordapp.com/emojis"]')\<close>.\<close>

definition visibleEmojis :: "view \<Rightarrow> img list" where
  "visibleEmojis v = filter (\<lambda>e. includes_str (src e) ''cdn.discordapp.com/emojis'') (imgs v)"

text \<open>\<^verbatim>\<open>nextSection && nextSection.classList.contains('categorySection_c656ac')\<close>.\<close>

definition reachedNextSection :: "view \<Rightarrow> bool" where
  "reachedNextSection v =
     (case nextElementSibling v of
        None \<Rightarrow> False
      | Some classList \<Rightarrow> ''categorySection_c656ac'' \<in> set classList)"

subsection \<open>The scroll loop\<close>

definition emit :: "event \<Rightarrow> cstate \<Rightarrow> cstate" where
  "emit ev st = st\<lparr>effects := effects st @ [ev]\<rparr>"

text \<open>The end of a round that goes on: scroll, wait for the emojis to load, count the round.\<close>

definition scrollOn :: "nat \<Rightarrow> cstate \<Rightarrow> cstate" where
  "scrollOn currentEmojiCount st =
     (emit (Wait 1500) (emit (ScrollBy scrollIncrement) st))
       \<lparr>previousEmojiCount := currentEmojiCount, scrollAttempts := scrollAttempts st + 1\<rparr>"

datatype step = Break cstate | Continue cstate

text \<open>The body of the \<^verbatim>\<open>while\<close> loop.\<close>

definition loopBody :: "page \<Rightarrow> cstate \<Rightarrow> step" where
  "loopBody pg st =
     (let v = sectionAt pg (scrollAttempts st);
          st1 = foldl scanEmoji st (visibleEmojis v);
          currentEmojiCount = length (emojiData st1);
          st2 = emit (LogAttempt (scrollAttempts st1 + 1) currentEmojiCount) st1
      in if reachedNextSection v then Break (emit LogReachedNext st2)
         else if currentEmojiCount = previousEmojiCount st2 then
           (let st3 = st2\<lparr>noNewEmojisCount := noNewEmojisCount st2 + 1\<rparr>
            in if noNewEmojisCount st3 \<ge> 3 then Break (emit LogNoNewEmojis st3)
               else Continue (scrollOn currentEmojiCount st3))
         else Continue (scrollOn currentEmojiCount (st2\<lparr>noNewEmojisCount := 0\<rparr>)))"

lemma foldl_scanEmoji_scrollAttempts:
  "scrollAttempts (foldl scanEmoji st es) = scrollAttempts st"
  by (induction es arbitrary: st) (simp_all add: scanEmoji_def Let_def)

lemma loopBody_Continue_scrollAttempts:
  "loopBody pg st = Continue st' \<Longrightarrow> scrollAttempts st' = scrollAttempts st + 1"
  by (auto simp: loopBody_def Let_def scrollOn_def emit_def foldl_scanEmoji_scrollAttempts
      split: if_splits)

function scrollLoop :: "page \<Rightarrow> cstate \<Rightarrow> cstate" where
  "scrollLoop pg st =
     (if scrollAttempts st < maxScrollAttempts then
        (case loopBody pg st of
           Break st' \<Rightarrow> st'
         | Continue st' \<Rightarrow> scrollLoop pg st')
      else st)"
  by pat_completeness auto
termination
proof (relation "measure (\<lambda>(pg, st). maxScrollAttempts - scrollAttempts st)")
  show "wf (measure (\<lambda>(pg, st). maxScrollAttempts - scrollAttempts st))"
    by simp
next
  fix pg st st'
  assume "scrollAttempts st < maxScrollAttempts" and "loopBody pg st = Continue st'"
  then show "((pg, st'), (pg, st)) \<in> measure (\<lambda>(pg, st). maxScrollAttempts - scrollAttempts st)"
    by (simp add: loopBody_Continue_scrollAttempts)
qed

declare scrollLoop.simps [simp del]

text \<open>
  The function passed to \<^verbatim>\<open>page.evaluate\<close>: it throws when an element is missing
  (\<open>Inl\<close> carries the message of the \<^verbatim>\<open>Error\<close>), and otherwise runs the loop. The result
  is what the function returns or throws, together with everything it did to the page.
\<close>

definition evaluateBody :: "page \<Rightarrow> (string + emoji list) \<times> event list" where
  "evaluateBody pg =
     (if \<not> emojiPickerContainer pg then (Inl ''Emoji picker container not found'', [])
      else if \<not> serverEmojiSection pg then (Inl ''Server emoji section not found'', [])
      else (let st = scrollLoop pg initialState in (Inr (emojisWithNames st), effects st)))"

text \<open>
  \<^verbatim>\<open>extractEmojiUrls\<close> returns what \<^verbatim>\<open>page.evaluate\<close> resolves to; a throw inside the page
  rejects the promise, and nothing here catches it. (The line the function prints on the
  console of the script before it calls \<^verbatim>\<open>page.evaluate\<close> is left out; the effects
  modelled are those inside the page.)
\<close>

definition extractEmojiUrls :: "page \<Rightarrow> string + emoji list" where
  "extractEmojiUrls pg = fst (evaluateBody pg)"

subsection \<open>Notions for stating the collector's properties\<close>

text \<open>The scans and the scrolls among the effects of a run.\<close>

fun isLogAttempt :: "event \<Rightarrow> bool" where
  "isLogAttempt (LogAttempt i n) = True"
| "isLogAttempt ev = False"

fun isScrollBy :: "event \<Rightarrow> bool" where
  "isScrollBy (ScrollBy d) = True"
| "isScrollBy ev = False"

text \<open>The thumbnails of the rounds \<open>0, ..., n - 1\<close>, in the order the loop scans them.\<close>

definition scanned :: "page \<Rightarrow> nat \<Rightarrow> img list" where
  "scanned pg n = concat (map (\<lambda>r. visibleEmojis (sectionAt pg r)) [0..<n])"

text \<open>
  The URLs of the descriptors of round \<open>r\<close>, and whether each of them was already shown
  in an earlier round: the round produces no new distinct URL.
\<close>

definition roundUrls :: "page \<Rightarrow> nat \<Rightarrow> string list" where
  "roundUrls pg r = map (\<lambda>e. url (emojiDescriptor e)) (visibleEmojis (sectionAt pg r))"

definition noNewUrl :: "page \<Rightarrow> nat \<Rightarrow> bool" where
  "noNewUrl pg r = (set (roundUrls pg r) \<subseteq> set (map (\<lambda>e. url (emojiDescriptor e)) (scanned pg r)))"

text \<open>
  \<open>roundState pg k = Some st\<close>: the run on \<open>pg\<close> comes to test the loop condition for the
  \<open>k\<close>-th time after the first, with the variables as in \<open>st\<close>; \<open>None\<close> when the loop
  has ended before.
\<close>

primrec roundState :: "page \<Rightarrow> nat \<Rightarrow> cstate option" where
  "roundState pg 0 = Some initialState"
| "roundState pg (Suc k) =
     (case roundState pg k of
        None \<Rightarrow> None
      | Some st \<Rightarrow>
          if scrollAttempts st < maxScrollAttempts then
            (case loopBody pg st of Break st' \<Rightarrow> None | Continue st' \<Rightarrow> Some st')
          else None)"

text \<open>The variables as a round leaves them, whether it breaks or goes on.\<close>

fun stateOf :: "step \<Rightarrow> cstate" where
  "stateOf (Break st) = st"
| "stateOf (Continue st) = st"

section \<open>The pipeline: \<open>downloadAndProcessEmojis\<close>\<close>

subsection \<open>The world outside the function\<close>

type_synonym buffer = "8 word list"

type_synonym fs = "string \<rightharpoonup> buffer"

text \<open>The \<^verbatim>\<open>Server\<close> the orchestrator passes: its display name and its output folder.\<close>

record server =
  name :: string
  folder :: string
  channel :: string

text \<open>
  A \<^verbatim>\<open>Response\<close>: \<^verbatim>\<open>ok\<close>, \<^verbatim>\<open>statusText\<close>, and what \<^verbatim>\<open>arrayBuffer()\<close> resolves to
  (\<open>Inl\<close> when that promise rejects).
\<close>

record response =
  ok :: bool
  statusText :: string
  arrayBuffer :: "string + buffer"

text \<open>
  The library calls of the function, each with the message of the error it throws as
  \<open>Inl\<close> (or \<open>Some\<close>): \<^verbatim>\<open>fetch(url)\<close>; the chain
  \<^verbatim>\<open>sharp(buffer, { animated }).resize({ width, height, fit: 'inside', withoutEnlargement: true }).webp({ quality: 80 }).toBuffer()\<close>
  as a function of the buffer, the animated flag and the size; \<^verbatim>\<open>path.join\<close>;
  \<^verbatim>\<open>Bun.write(filePath, data)\<close>, which returns the files as it leaves them; and
  \<^verbatim>\<open>Bun.file(filePath).arrayBuffer()\<close>.
\<close>

record runtime =
  fetch :: "string \<Rightarrow> string + response"
  sharpWebp :: "buffer \<Rightarrow> bool \<Rightarrow> int \<Rightarrow> string + buffer"
  pathJoin :: "string list \<Rightarrow> string"
  bunWrite :: "string \<Rightarrow> buffer \<Rightarrow> fs \<Rightarrow> string option \<times> fs"
  bunFileArrayBuffer :: "string \<Rightarrow> fs \<Rightarrow> string + buffer"

text \<open>
  The lines of the console, with the values their templates interpolate:
  \<^item> \<open>Downloading i n name url\<close>: \<^verbatim>\<open>Downloading emoji i/n (name) from URL: url...\<close>
  \<^item> \<open>Downloaded i name size\<close>: \<^verbatim>\<open>Downloaded emoji i (name), buffer size: size bytes\<close>
  \<^item> \<open>Processed i name size\<close>: \<^verbatim>\<open>Processed emoji i (name), resized buffer size: size bytes\<close>
  \<^item> \<open>Saved fileName folder\<close>: \<^verbatim>\<open>Saved fileName to folder\<close>
  \<^item> \<open>FileSizeOnDisk size\<close>: \<^verbatim>\<open>File size on disk: size bytes\<close>
  \<^item> \<open>FailedToProcess i name server message\<close>, the only line written with
    \<^verbatim>\<open>console.error\<close>: \<^verbatim>\<open>Failed to process emoji i (name) in server: message\<close>
\<close>

datatype line =
    Downloading nat nat string string
  | Downloaded nat string nat
  | Processed nat string nat
  | Saved string string
  | FileSizeOnDisk nat
  | FailedToProcess nat string string string

record world =
  files :: fs
  console :: "line list"

definition say :: "line \<Rightarrow> world \<Rightarrow> world" where
  "say l w = w\<lparr>console := console w @ [l]\<rparr>"

subsection \<open>One emoji\<close>

text \<open>
  The \<^verbatim>\<open>try\<close> block for the emoji at \<open>index\<close>: \<open>Inl\<close> carries the message of what was
  thrown, and the world is returned as the block left it.
\<close>

definition tryBlock ::
  "runtime \<Rightarrow> nat \<Rightarrow> emoji \<Rightarrow> server \<Rightarrow> string \<Rightarrow> int \<Rightarrow> world \<Rightarrow> (string + unit) \<times> world" where
  "tryBlock rt index e sv outputBaseDir emojiSize w =
     (case fetch rt (url e) of
        Inl msg \<Rightarrow> (Inl msg, w)
      | Inr resp \<Rightarrow>
          if \<not> ok resp then (Inl (''Failed to fetch emoji: '' @ statusText resp), w)
          else
            (case arrayBuffer resp of
               Inl msg \<Rightarrow> (Inl msg, w)
             | Inr buf \<Rightarrow>
                 let w1 = say (Downloaded (index + 1) (emoji.name e) (length buf)) w
                 in if length buf = 0 then (Inl ''Downloaded buffer is empty'', w1)
                    else
                      (case sharpWebp rt buf (includes_str (url e) ''animated=true'') emojiSize of
                         Inl msg \<Rightarrow> (Inl msg, w1)
                       | Inr resizedImage \<Rightarrow>
                           let w2 = say (Processed (index + 1) (emoji.name e) (length resizedImage)) w1
                           in if length resizedImage = 0 then (Inl ''Resized buffer is empty'', w2)
                              else
                                (let fileName = emoji.name e @ ''.webp'';
                                     filePath = pathJoin rt [outputBaseDir, folder sv, fileName]
                                 in case bunWrite rt filePath resizedImage (files w2) of
                                      (Some msg, fs') \<Rightarrow> (Inl msg, w2\<lparr>files := fs'\<rparr>)
                                    | (None, fs') \<Rightarrow>
                                        let w3 = say (Saved fileName (folder sv)) (w2\<lparr>files := fs'\<rparr>)
                                        in (case bunFileArrayBuffer rt filePath (files w3) of
                                              Inl msg \<Rightarrow> (Inl msg, w3)
                                            | Inr onDisk \<Rightarrow>
                                                (Inr (), say (FileSizeOnDisk (length onDisk)) w3))))))"

text \<open>
  One turn of the \<^verbatim>\<open>for\<close> loop, for the entry \<open>(index, emoji)\<close>: the first line, the
  \<^verbatim>\<open>try\<close> block, and the \<^verbatim>\<open>catch\<close> clause, which writes one line and throws nothing.
\<close>

definition processEntry ::
  "runtime \<Rightarrow> nat \<Rightarrow> server \<Rightarrow> string \<Rightarrow> int \<Rightarrow> nat \<times> emoji \<Rightarrow> world \<Rightarrow> (string + unit) \<times> world" where
  "processEntry rt len sv outputBaseDir emojiSize entry w =
     (case entry of (index, e) \<Rightarrow>
        let w0 = say (Downloading (index + 1) len (emoji.name e) (url e)) w
        in case tryBlock rt index e sv outputBaseDir emojiSize w0 of
             (Inl msg, w') \<Rightarrow>
               (Inr (), say (FailedToProcess (index + 1) (emoji.name e) (server.name sv) msg) w')
           | (Inr u, w') \<Rightarrow> (Inr (), w'))"

subsection \<open>The loop\<close>

text \<open>A \<^verbatim>\<open>for ... of\<close> loop whose body may throw: a throw ends the loop and leaves it.\<close>

fun forOf :: "('a \<Rightarrow> world \<Rightarrow> (string + unit) \<times> world) \<Rightarrow> 'a list \<Rightarrow> world \<Rightarrow> (string + unit) \<times> world" where
  "forOf body [] w = (Inr (), w)"
| "forOf body (x # xs) w =
     (case body x w of
        (Inl msg, w') \<Rightarrow> (Inl msg, w')
      | (Inr u, w') \<Rightarrow> forOf body xs w')"

text \<open>\<^verbatim>\<open>emojis.entries()\<close> is \<open>enumerate 0 emojis\<close>: the pairs of an index and its element.\<close>

definition downloadAndProcessEmojis ::
  "runtime \<Rightarrow> emoji list \<Rightarrow> server \<Rightarrow> string \<Rightarrow> int \<Rightarrow> world \<Rightarrow> (string + unit) \<times> world" where
  "downloadAndProcessEmojis rt emojis sv outputBaseDir emojiSize w =
     forOf (processEntry rt (length emojis) sv outputBaseDir emojiSize) (enumerate 0 emojis) w"

text \<open>
  The earlier variant of the function takes URLs alone and names every file by its
  position: \<^verbatim>\<open>`emoji_${index + 1}.webp`\<close>.
\<close>

definition positionalFileName :: "nat \<Rightarrow> string" where
  "positionalFileName index = ''emoji_'' @ decimal (index + 1) @ ''.webp''"

subsection \<open>A well-behaved file system\<close>

text \<open>
  \<^verbatim>\<open>Bun.write\<close> as documented: it creates the file or replaces its content, and
  \<^verbatim>\<open>Bun.file(p).arrayBuffer()\<close> gives the content back, or rejects when there is no file.
\<close>

definition overwriteFile :: "string \<Rightarrow> buffer \<Rightarrow> fs \<Rightarrow> string option \<times> fs" where
  "overwriteFile p b fs = (None, fs(p \<mapsto> b))"

definition readFile :: "string \<Rightarrow> fs \<Rightarrow> string + buffer" where
  "readFile p fs = (case fs p of None \<Rightarrow> Inl ''ENOENT: no such file or directory'' | Some b \<Rightarrow> Inr b)"

text \<open>
  \<^verbatim>\<open>path.join\<close> on segments that need no normalisation (no \<^verbatim>\<open>/\<close>, \<^verbatim>\<open>.\<close> or \<^verbatim>\<open>..\<close>
  segment inside them): the non-empty segments, with \<^verbatim>\<open>/\<close> between them.
\<close>

fun joinSegments :: "string list \<Rightarrow> string" where
  "joinSegments [] = ''.''"
| "joinSegments [s] = (if s = [] then ''.'' else s)"
| "joinSegments (s # t # ts) =
     (if s = [] then joinSegments (t # ts)
      else if joinSegments (t # ts) = ''.'' then s
      else s @ ''/'' @ joinSegments (t # ts))"

subsection \<open>Notions for stating the pipeline's properties\<close>

text \<open>
  What the \<^verbatim>\<open>try\<close> block has in hand when it comes to the write: the resized image, or
  the message of what was thrown before (the fetch or the body rejected, the status was
  not a success, the downloaded buffer was empty, \<^verbatim>\<open>sharp\<close> threw, or the resized buffer
  was empty). It depends on the emoji and the library calls alone.
\<close>

definition prepared :: "runtime \<Rightarrow> int \<Rightarrow> emoji \<Rightarrow> string + buffer" where
  "prepared rt emojiSize e =
     (case fetch rt (url e) of
        Inl msg \<Rightarrow> Inl msg
      | Inr resp \<Rightarrow>
          if \<not> ok resp then Inl (''Failed to fetch emoji: '' @ statusText resp)
          else
            (case arrayBuffer resp of
               Inl msg \<Rightarrow> Inl msg
             | Inr buf \<Rightarrow>
                 if length buf = 0 then Inl ''Downloaded buffer is empty''
                 else
                   (case sharpWebp rt buf (includes_str (url e) ''animated=true'') emojiSize of
                      Inl msg \<Rightarrow> Inl msg
                    | Inr resizedImage \<Rightarrow>
                        if length resizedImage = 0 then Inl ''Resized buffer is empty''
                        else Inr resizedImage)))"

text \<open>The path the \<^verbatim>\<open>try\<close> block writes to.\<close>

definition filePathOf :: "runtime \<Rightarrow> server \<Rightarrow> string \<Rightarrow> emoji \<Rightarrow> string" where
  "filePathOf rt sv outputBaseDir e = pathJoin rt [outputBaseDir, folder sv, emoji.name e @ ''.webp'']"

text \<open>The first line of a turn of the loop, and the index a \<^verbatim>\<open>console.error\<close> line names.\<close>

fun isDownloading :: "line \<Rightarrow> bool" where
  "isDownloading (Downloading i n nm u) = True"
| "isDownloading l = False"

fun failedIndex :: "line \<Rightarrow> nat option" where
  "failedIndex (FailedToProcess i nm s msg) = Some i"
| "failedIndex l = None"

text \<open>The lines a run added to the console.\<close>

definition newLines :: "world \<Rightarrow> world \<Rightarrow> line list" where
  "newLines w w' = drop (length (console w)) (console w')"

section \<open>Example inputs\<close>

text \<open>
  Two pages. On the first, the second round repeats a URL of the first round (at another
  size, under another name), shows an image that is no emoji, and has the next category
  section as the section's sibling. On the second, every round after the first shows one
  emoji again.
\<close>

definition examplePage :: page where
  "examplePage =
     \<lparr>emojiPickerContainer = True, serverEmojiSection = True,
      sectionAt = (\<lambda>k.
        if k = 0 then
          \<lparr>imgs = [\<lparr>src = ''https://cdn.discordapp.com/emojis/1.webp?size=48&animated=true'', alt = '':wave:''\<rparr>,
                   \<lparr>src = ''https://cdn.discordapp.com/emojis/2.webp?size=48'', alt = '':smile:''\<rparr>],
            nextElementSibling = None\<rparr>
        else
          \<lparr>imgs = [\<lparr>src = ''https://cdn.discordapp.com/emojis/2.webp?size=64'', alt = '':grin:''\<rparr>,
                   \<lparr>src = ''https://cdn.discordapp.com/avatars/9.png'', alt = ''avatar''\<rparr>,
                   \<lparr>src = ''https://cdn.discordapp.com/emojis/3.webp?size=48'', alt = '':cat face:''\<rparr>],
            nextElementSibling = Some [''categorySection_c656ac'', ''wrapper'']\<rparr>)\<rparr>"

definition stalledPage :: page where
  "stalledPage =
     \<lparr>emojiPickerContainer = True, serverEmojiSection = True,
      sectionAt = (\<lambda>k.
        if k = 0 then
          \<lparr>imgs = [\<lparr>src = ''https://cdn.discordapp.com/emojis/1.webp?size=48&animated=true'', alt = '':wave:''\<rparr>,
                   \<lparr>src = ''https://cdn.discordapp.com/emojis/2.webp?size=48'', alt = '':smile:''\<rparr>],
            nextElementSibling = None\<rparr>
        else
          \<lparr>imgs = [\<lparr>src = ''https://cdn.discordapp.com/emojis/2.webp?size=48'', alt = '':smile:''\<rparr>],
            nextElementSibling = Some [''wrapper'']\<rparr>)\<rparr>"

text \<open>
  A server, and library calls that behave: every URL is fetched with success and three
  bytes, but the one of emoji 2, which is not found; the image library returns two bytes.
  The second runtime differs in its disk, which keeps the first byte of what is written;
  the third in that no file can be read back.
\<close>

definition exampleServer :: server where
  "exampleServer = \<lparr>name = ''Cozy hive'', folder = ''Cozyhive'', channel = ''general''\<rparr>"

definition exampleRuntime :: runtime where
  "exampleRuntime =
     \<lparr>fetch = (\<lambda>u. if includes_str u ''/2.webp''
                   then Inr \<lparr>ok = False, statusText = ''Not Found'', arrayBuffer = Inr []\<rparr>
                   else Inr \<lparr>ok = True, statusText = ''OK'', arrayBuffer = Inr [82, 73, 70]\<rparr>),
      sharpWebp = (\<lambda>buf animated emojiSize. Inr (take 2 buf)),
      pathJoin = joinSegments,
      bunWrite = overwriteFile,
      bunFileArrayBuffer = readFile\<rparr>"

definition truncatingRuntime :: runtime where
  "truncatingRuntime = exampleRuntime\<lparr>bunWrite := (\<lambda>p b fs. (None, fs(p \<mapsto> take 1 b)))\<rparr>"

definition unreadableRuntime :: runtime where
  "unreadableRuntime =
     exampleRuntime\<lparr>bunFileArrayBuffer := (\<lambda>p fs. Inl ''EACCES: permission denied'')\<rparr>"

text \<open>No files and nothing printed; three emojis; a thumbnail without \<^verbatim>\<open>alt\<close> text.\<close>

definition emptyWorld :: world where
  "emptyWorld = \<lparr>files = Map.empty, console = []\<rparr>"

definition threeEmojis :: "emoji list" where
  "threeEmojis =
     [\<lparr>url = ''https://cdn.discordapp.com/emojis/1.webp?size=512&animated=true'', name = ''wave''\<rparr>,
      \<lparr>url = ''https://cdn.discordapp.com/emojis/2.webp?size=512'', name = ''smile''\<rparr>,
      \<lparr>url = ''https://cdn.discordapp.com/emojis/3.webp?size=512'', name = ''cat_face''\<rparr>]"

definition unnamedImg :: img where
  "unnamedImg = \<lparr>src = ''https://cdn.discordapp.com/emojis/1.webp?size=48'', alt = ''''\<rparr>"

section \<open>Auxiliary definitions of the proofs\<close>

text \<open>The list of descriptors the scans build: a descriptor is appended when its URL is new.\<close>

definition keepFirst :: "emoji list \<Rightarrow> emoji list \<Rightarrow> emoji list" where
  "keepFirst acc ds = foldl (\<lambda>a d. if url d \<in> set (map url a) then a else a @ [d]) acc ds"

text \<open>What holds of the variables whenever the loop condition is tested.\<close>

definition loopInv :: "page \<Rightarrow> cstate \<Rightarrow> bool" where
  "loopInv pg st =
     (emojisWithNames st = keepFirst [] (map emojiDescriptor (scanned pg (scrollAttempts st))) \<and>
      emojiData st = map url (emojisWithNames st) \<and>
      previousEmojiCount st = length (emojiData st) \<and>
      noNewEmojisCount st < 3 \<and>
      length (filter isLogAttempt (effects st)) = scrollAttempts st \<and>
      length (filter isScrollBy (effects st)) = scrollAttempts st)"

text \<open>The scan at the start of the loop body.\<close>

definition scanRound :: "page \<Rightarrow> cstate \<Rightarrow> cstate" where
  "scanRound pg st = foldl scanEmoji st (visibleEmojis (sectionAt pg (scrollAttempts st)))"

text \<open>What holds of the variables when the loop has ended.\<close>

definition loopDone :: "page \<Rightarrow> cstate \<Rightarrow> bool" where
  "loopDone pg st =
     (emojisWithNames st =
        keepFirst [] (map emojiDescriptor (scanned pg (length (filter isLogAttempt (effects st))))))"

text \<open>The world after one turn of the \<^verbatim>\<open>for\<close> loop.\<close>

definition turn :: "runtime \<Rightarrow> nat \<Rightarrow> server \<Rightarrow> string \<Rightarrow> int \<Rightarrow> world \<Rightarrow> nat \<times> emoji \<Rightarrow> world" where
  "turn rt len sv outputBaseDir emojiSize w entry = snd (processEntry rt len sv outputBaseDir emojiSize entry w)"

section \<open>Properties of the string functions\<close>

lemma includes_str_iff: "includes_str s p \<longleftrightarrow> (\<exists>a b. s = a @ p @ b)"
proof (induction s)
  case Nil
  then show ?case by auto
next
  case (Cons c cs)
  show ?case
  proof
    assume "includes_str (c # cs) p"
    then consider "prefix p (c # cs)" | "includes_str cs p" by auto
    then show "\<exists>a b. c # cs = a @ p @ b"
    proof cases
      case 1
      then obtain z where "c # cs = p @ z" by (auto simp: prefix_def)
      then have "c # cs = [] @ p @ z" by simp
      then show ?thesis by blast
    next
      case 2
      then obtain a b where "cs = a @ p @ b" using Cons.IH by blast
      then have "c # cs = (c # a) @ p @ b" by simp
      then show ?thesis by blast
    qed
  next
    assume "\<exists>a b. c # cs = a @ p @ b"
    then obtain a b where ab: "c # cs = a @ p @ b" by blast
    show "includes_str (c # cs) p"
    proof (cases a)
      case Nil
      with ab have "prefix p (c # cs)" by (simp add: prefix_def)
      then show ?thesis by simp
    next
      case (Cons x a')
      with ab have "cs = a' @ p @ b" by simp
      then have "includes_str cs p" using Cons.IH by blast
      then show ?thesis by simp
    qed
  qed
qed

lemma replaceSize_contains:
  "sizeMatch (drop i s) \<Longrightarrow> includes_str (replaceSize s) ''size=512''"
proof (induction s arbitrary: i)
  case Nil
  then show ?case by (simp add: sizeMatch_def)
next
  case (Cons c cs)
  show ?case
  proof (cases "sizeMatch (c # cs)")
    case True
    then have "replaceSize (c # cs) = [] @ ''size=512'' @ dropWhile isDigit (drop 5 (c # cs))"
      by simp
    then show ?thesis unfolding includes_str_iff by blast
  next
    case False
    with Cons.prems obtain j where "i = Suc j" by (cases i) auto
    with Cons.prems have "sizeMatch (drop j cs)" by simp
    then have "includes_str (replaceSize cs) ''size=512''" by (rule Cons.IH)
    with False show ?thesis by simp
  qed
qed

lemma sizeMatch_at:
  assumes "ds \<noteq> []" and "\<forall>c\<in>set ds. isDigit c"
  shows "sizeMatch (''size='' @ ds @ post)"
proof -
  obtain d ds' where "ds = d # ds'" using assms(1) by (cases ds) auto
  with assms(2) show ?thesis by (simp add: sizeMatch_def)
qed

lemma replaceSize_leftmost:
  "\<forall>i<length pre. \<not> sizeMatch (drop i (pre @ rest)) \<Longrightarrow> replaceSize (pre @ rest) = pre @ replaceSize rest"
proof (induction pre)
  case Nil
  then show ?case by simp
next
  case (Cons c pre)
  from Cons.prems have "\<not> sizeMatch (c # pre @ rest)" by force
  moreover have "\<forall>i<length pre. \<not> sizeMatch (drop i (pre @ rest))"
  proof (intro allI impI)
    fix i assume "i < length pre"
    then have "Suc i < length (c # pre)" by simp
    with Cons.prems have "\<not> sizeMatch (drop (Suc i) ((c # pre) @ rest))" by blast
    then show "\<not> sizeMatch (drop i (pre @ rest))" by simp
  qed
  ultimately show ?case using Cons.IH by simp
qed

lemma replaceSize_match:
  assumes "ds \<noteq> []" and "\<forall>c\<in>set ds. isDigit c" and "post = [] \<or> \<not> isDigit (hd post)"
  shows "replaceSize (''size='' @ ds @ post) = ''size=512'' @ post"
proof -
  have m: "sizeMatch (''size='' @ ds @ post)" using assms(1,2) by (rule sizeMatch_at)
  have "dropWhile isDigit (ds @ post) = post"
    using assms(2,3) by (cases post) (auto simp: dropWhile_append3 dropWhile_append)
  with m show ?thesis by simp
qed

lemma includes_str_append_left: "includes_str r p \<Longrightarrow> includes_str (x @ r) p"
proof -
  assume "includes_str r p"
  then obtain a b where "r = a @ p @ b" unfolding includes_str_iff by blast
  then have "x @ r = (x @ a) @ p @ b" by simp
  then show ?thesis unfolding includes_str_iff by blast
qed

lemma includes_animated_dropWhile:
  "includes_str r ''animated=true'' \<Longrightarrow> includes_str (dropWhile isDigit r) ''animated=true''"
proof (induction r)
  case Nil
  then show ?case by simp
next
  case (Cons d r)
  show ?case
  proof (cases "isDigit d")
    case True
    then have "d \<noteq> CHR ''a''" by (auto simp: isDigit_def)
    with Cons.prems have "includes_str r ''animated=true''" by auto
    with True show ?thesis using Cons.IH by simp
  next
    case False
    with Cons.prems show ?thesis by simp
  qed
qed

lemma includes_animated_after_size:
  "includes_str (''size='' @ rest) ''animated=true'' = includes_str rest ''animated=true''"
  by simp

lemma replaceSize_no_s:
  "CHR ''s'' \<notin> set pre \<Longrightarrow> replaceSize (pre @ rest) = pre @ replaceSize rest"
  by (induction pre) (auto simp: sizeMatch_def)

lemma replaceSize_keeps_animated:
  "includes_str s ''animated=true'' \<Longrightarrow> includes_str (replaceSize s) ''animated=true''"
proof (induction s)
  case Nil
  then show ?case by simp
next
  case (Cons c cs)
  show ?case
  proof (cases "sizeMatch (c # cs)")
    case True
    then obtain rest where rest: "c # cs = ''size='' @ rest"
      by (auto simp: sizeMatch_def prefix_def)
    with Cons.prems have "includes_str rest ''animated=true''"
      by (simp only: includes_animated_after_size)
    then have "includes_str (dropWhile isDigit rest) ''animated=true''"
      by (rule includes_animated_dropWhile)
    then have "includes_str (''size=512'' @ dropWhile isDigit rest) ''animated=true''"
      by (rule includes_str_append_left)
    moreover have "replaceSize (c # cs) = ''size=512'' @ dropWhile isDigit rest"
      using True rest by simp
    ultimately show ?thesis by simp
  next
    case False
    from Cons.prems consider "prefix ''animated=true'' (c # cs)" | "includes_str cs ''animated=true''"
      by auto
    then show ?thesis
    proof cases
      case 1
      then obtain b where b: "c # cs = ''animated=true'' @ b" by (auto simp: prefix_def)
      have "replaceSize (''animated=true'' @ b) = ''animated=true'' @ replaceSize b"
        by (rule replaceSize_no_s) simp
      with b have "replaceSize (c # cs) = [] @ ''animated=true'' @ replaceSize b" by simp
      then show ?thesis unfolding includes_str_iff by blast
    next
      case 2
      then have "includes_str (replaceSize cs) ''animated=true''" by (rule Cons.IH)
      with False show ?thesis by simp
    qed
  qed
qed

lemma highQualitySrc_replaceSize: "highQualitySrc s = replaceSize s"
  by (simp add: highQualitySrc_def Let_def replaceSize_keeps_animated)

lemma leftmost_match:
  "sizeMatch (drop i s) \<Longrightarrow>
     \<exists>pre ds post. s = pre @ ''size='' @ ds @ post \<and> ds \<noteq> [] \<and> (\<forall>c\<in>set ds. isDigit c) \<and>
       (\<forall>j<length pre. \<not> sizeMatch (drop j s)) \<and> (post = [] \<or> \<not> isDigit (hd post))"
proof (induction s arbitrary: i)
  case Nil
  then show ?case by (simp add: sizeMatch_def)
next
  case (Cons c cs)
  show ?case
  proof (cases "sizeMatch (c # cs)")
    case True
    let ?rest = "drop 5 (c # cs)"
    from True obtain z where z: "c # cs = ''size='' @ z" by (auto simp: sizeMatch_def prefix_def)
    then have rest: "?rest = z" by simp
    have 1: "c # cs = [] @ ''size='' @ takeWhile isDigit ?rest @ dropWhile isDigit ?rest"
      using z rest by simp
    have 2: "takeWhile isDigit ?rest \<noteq> []" using True by (simp add: sizeMatch_def)
    have 3: "\<forall>d\<in>set (takeWhile isDigit ?rest). isDigit d" by (auto dest: set_takeWhileD)
    have 4: "\<forall>j<length ([]::string). \<not> sizeMatch (drop j (c # cs))" by simp
    have 5: "dropWhile isDigit ?rest = [] \<or> \<not> isDigit (hd (dropWhile isDigit ?rest))"
      by (cases "dropWhile isDigit ?rest = []") (simp_all add: hd_dropWhile)
    from 1 2 3 4 5 show ?thesis by blast
  next
    case False
    with Cons.prems obtain j where "i = Suc j" by (cases i) auto
    with Cons.prems have "sizeMatch (drop j cs)" by simp
    from Cons.IH [OF this] obtain pre ds post where
      s: "cs = pre @ ''size='' @ ds @ post" and d: "ds \<noteq> []" "\<forall>c\<in>set ds. isDigit c"
      and l: "\<forall>j<length pre. \<not> sizeMatch (drop j cs)" and p: "post = [] \<or> \<not> isDigit (hd post)"
      by blast
    have 1: "c # cs = (c # pre) @ ''size='' @ ds @ post" using s by simp
    have 4: "\<forall>j<length (c # pre). \<not> sizeMatch (drop j (c # cs))"
    proof (intro allI impI)
      fix j assume j: "j < length (c # pre)"
      show "\<not> sizeMatch (drop j (c # cs))"
      proof (cases j)
        case 0
        with False show ?thesis by simp
      next
        case (Suc j')
        with j l show ?thesis by simp
      qed
    qed
    from 1 d 4 p show ?thesis by blast
  qed
qed

section \<open>Properties of the collector\<close>

subsection \<open>Keeping the first descriptor of each URL\<close>

lemma keepFirst_Nil [simp]: "keepFirst acc [] = acc"
  by (simp add: keepFirst_def)

lemma keepFirst_snoc:
  "keepFirst acc (ds @ [d]) =
     (if url d \<in> set (map url (keepFirst acc ds)) then keepFirst acc ds else keepFirst acc ds @ [d])"
  by (simp add: keepFirst_def)

lemma keepFirst_append: "keepFirst acc (xs @ ys) = keepFirst (keepFirst acc xs) ys"
  by (simp add: keepFirst_def)

lemma keepFirst_urls: "set (map url (keepFirst [] ds)) = set (map url ds)"
  by (induction ds rule: rev_induct) (auto simp: keepFirst_snoc)

lemma keepFirst_first_seen: "map url (keepFirst [] ds) = rev (remdups (rev (map url ds)))"
proof (induction ds rule: rev_induct)
  case Nil
  then show ?case by simp
next
  case (snoc d ds)
  have "(url d \<in> set (map url (keepFirst [] ds))) = (url d \<in> set (map url ds))"
    by (simp only: keepFirst_urls)
  then show ?case using snoc by (simp add: keepFirst_snoc)
qed

lemma keepFirst_distinct: "distinct (map url (keepFirst [] ds))"
  by (simp add: keepFirst_first_seen)

lemma find_snoc:
  "find P (xs @ [x]) = (case find P xs of Some y \<Rightarrow> Some y | None \<Rightarrow> if P x then Some x else None)"
  by (induction xs) auto

lemma keepFirst_find:
  "d \<in> set (keepFirst [] ds) \<Longrightarrow> find (\<lambda>x. url x = url d) ds = Some d"
proof (induction ds rule: rev_induct)
  case Nil
  then show ?case by simp
next
  case (snoc x ds)
  show ?case
  proof (cases "d \<in> set (keepFirst [] ds)")
    case True
    then have "find (\<lambda>x. url x = url d) ds = Some d" by (rule snoc.IH)
    then show ?thesis by (simp add: find_snoc)
  next
    case False
    with snoc.prems have new: "url x \<notin> set (map url (keepFirst [] ds))" and dx: "d = x"
      by (auto simp: keepFirst_snoc split: if_splits)
    from new have "url x \<notin> set (map url ds)" using keepFirst_urls [of ds] by simp
    then have "find (\<lambda>y. url y = url x) ds = None" by (force simp: find_None_iff image_iff)
    with dx show ?thesis by (simp add: find_snoc)
  qed
qed

lemma foldl_scanEmoji_previousEmojiCount [simp]:
  "previousEmojiCount (foldl scanEmoji st es) = previousEmojiCount st"
  by (induction es arbitrary: st) (simp_all add: scanEmoji_def Let_def)

lemma foldl_scanEmoji_noNewEmojisCount [simp]:
  "noNewEmojisCount (foldl scanEmoji st es) = noNewEmojisCount st"
  by (induction es arbitrary: st) (simp_all add: scanEmoji_def Let_def)

lemma foldl_scanEmoji_effects [simp]:
  "effects (foldl scanEmoji st es) = effects st"
  by (induction es arbitrary: st) (simp_all add: scanEmoji_def Let_def)

lemma foldl_scanEmoji_keepFirst:
  "emojiData st = map url (emojisWithNames st) \<Longrightarrow>
   emojisWithNames (foldl scanEmoji st es) = keepFirst (emojisWithNames st) (map emojiDescriptor es) \<and>
   emojiData (foldl scanEmoji st es) = map url (emojisWithNames (foldl scanEmoji st es))"
proof (induction es arbitrary: st)
  case Nil
  then show ?case by simp
next
  case (Cons e es)
  have "emojiData (scanEmoji st e) = map url (emojisWithNames (scanEmoji st e))"
    using Cons.prems by (simp add: scanEmoji_def Let_def)
  from Cons.IH [OF this] show ?case
    using Cons.prems by (simp add: scanEmoji_def Let_def keepFirst_def)
qed

lemma scanned_Suc: "scanned pg (Suc n) = scanned pg n @ visibleEmojis (sectionAt pg n)"
  by (simp add: scanned_def)

subsection \<open>One scan, and the invariant of the loop\<close>

lemma length_keepFirst: "length (keepFirst [] ds) = card (set (map url ds))"
proof -
  have "length (keepFirst [] ds) = length (map url (keepFirst [] ds))" by simp
  also have "\<dots> = length (remdups (rev (map url ds)))" by (simp only: keepFirst_first_seen length_rev)
  also have "\<dots> = card (set (rev (map url ds)))" by (rule length_remdups_card_conv)
  finally show ?thesis by simp
qed

lemma scanRound_names:
  assumes "loopInv pg st"
  shows "emojisWithNames (scanRound pg st) =
           keepFirst [] (map emojiDescriptor (scanned pg (Suc (scrollAttempts st))))"
    and "emojiData (scanRound pg st) = map url (emojisWithNames (scanRound pg st))"
proof -
  from assms have d: "emojiData st = map url (emojisWithNames st)"
    and n: "emojisWithNames st = keepFirst [] (map emojiDescriptor (scanned pg (scrollAttempts st)))"
    by (simp_all add: loopInv_def)
  note k = foldl_scanEmoji_keepFirst [OF d, of "visibleEmojis (sectionAt pg (scrollAttempts st))"]
  from k show "emojiData (scanRound pg st) = map url (emojisWithNames (scanRound pg st))"
    by (simp add: scanRound_def)
  from k have "emojisWithNames (scanRound pg st) =
      keepFirst (keepFirst [] (map emojiDescriptor (scanned pg (scrollAttempts st))))
        (map emojiDescriptor (visibleEmojis (sectionAt pg (scrollAttempts st))))"
    using n by (simp add: scanRound_def)
  then show "emojisWithNames (scanRound pg st) =
           keepFirst [] (map emojiDescriptor (scanned pg (Suc (scrollAttempts st))))"
    by (simp add: scanned_Suc keepFirst_append)
qed

lemma scanRound_count:
  assumes "loopInv pg st"
  shows "(length (emojiData (scanRound pg st)) = previousEmojiCount st) = noNewUrl pg (scrollAttempts st)"
proof -
  let ?k = "scrollAttempts st"
  let ?A = "set (map (\<lambda>e. url (emojiDescriptor e)) (scanned pg ?k))"
  let ?B = "set (roundUrls pg ?k)"
  have after: "length (emojiData (scanRound pg st)) = card (?A \<union> ?B)"
    using scanRound_names [OF assms]
    by (simp add: length_keepFirst scanned_Suc roundUrls_def image_Un image_image)
  have before: "previousEmojiCount st = card ?A"
    using assms by (simp add: loopInv_def length_keepFirst image_image)
  have "(card (?A \<union> ?B) = card ?A) = (?B \<subseteq> ?A)"
  proof
    assume "card (?A \<union> ?B) = card ?A"
    then have "?A = ?A \<union> ?B" by (intro card_subset_eq) auto
    then show "?B \<subseteq> ?A" by blast
  next
    assume "?B \<subseteq> ?A"
    then have "?A \<union> ?B = ?A" by blast
    then show "card (?A \<union> ?B) = card ?A" by simp
  qed
  with after before show ?thesis by (simp add: noNewUrl_def)
qed

lemma scanRound_fields [simp]:
  "scrollAttempts (scanRound pg st) = scrollAttempts st"
  "previousEmojiCount (scanRound pg st) = previousEmojiCount st"
  "noNewEmojisCount (scanRound pg st) = noNewEmojisCount st"
  "effects (scanRound pg st) = effects st"
  by (simp_all add: scanRound_def foldl_scanEmoji_scrollAttempts)

lemma loopBody_scanRound:
  "loopBody pg st =
     (let st2 = emit (LogAttempt (scrollAttempts st + 1) (length (emojiData (scanRound pg st)))) (scanRound pg st)
      in if reachedNextSection (sectionAt pg (scrollAttempts st)) then Break (emit LogReachedNext st2)
         else if length (emojiData (scanRound pg st)) = previousEmojiCount st then
           (if noNewEmojisCount st + 1 \<ge> 3
            then Break (emit LogNoNewEmojis (st2\<lparr>noNewEmojisCount := noNewEmojisCount st + 1\<rparr>))
            else Continue (scrollOn (length (emojiData (scanRound pg st)))
                            (st2\<lparr>noNewEmojisCount := noNewEmojisCount st + 1\<rparr>)))
         else Continue (scrollOn (length (emojiData (scanRound pg st))) (st2\<lparr>noNewEmojisCount := 0\<rparr>)))"
  by (simp add: loopBody_def Let_def scanRound_def emit_def foldl_scanEmoji_scrollAttempts)

lemma loopInv_initialState: "loopInv pg initialState"
  by (simp add: loopInv_def initialState_def scanned_def)

lemma loopInv_Continue:
  assumes "loopInv pg st" and "loopBody pg st = Continue st'"
  shows "loopInv pg st'"
proof -
  note n = scanRound_names [OF assms(1)]
  from assms(1) have e: "length (filter isLogAttempt (effects st)) = scrollAttempts st"
    "length (filter isScrollBy (effects st)) = scrollAttempts st"
    by (simp_all add: loopInv_def)
  from assms(2) n e show ?thesis
    by (auto simp: loopBody_scanRound Let_def loopInv_def scrollOn_def emit_def split: if_splits)
qed

lemma roundState_reached:
  "roundState pg k = Some st \<Longrightarrow>
     loopInv pg st \<and> scrollAttempts st = k \<and> scrollLoop pg initialState = scrollLoop pg st"
proof (induction k arbitrary: st)
  case 0
  then have "st = initialState" by simp
  then show ?case using loopInv_initialState [of pg] by (simp add: initialState_def)
next
  case (Suc k)
  from Suc.prems obtain st0 where r: "roundState pg k = Some st0"
    and lt: "scrollAttempts st0 < maxScrollAttempts"
    and b: "loopBody pg st0 = Continue st"
    by (auto split: option.splits if_splits step.splits)
  from Suc.IH [OF r] have i: "loopInv pg st0" and a: "scrollAttempts st0 = k"
    and l: "scrollLoop pg initialState = scrollLoop pg st0" by simp_all
  have "scrollLoop pg st0 = scrollLoop pg st"
    using lt b by (subst scrollLoop.simps) simp
  with l i a b show ?case
    by (simp add: loopInv_Continue loopBody_Continue_scrollAttempts)
qed

lemma loopInv_Break:
  assumes "loopInv pg st" and "loopBody pg st = Break st'"
  shows "loopDone pg st'"
proof -
  note n = scanRound_names [OF assms(1)]
  from assms(1) have e: "length (filter isLogAttempt (effects st)) = scrollAttempts st"
    by (simp add: loopInv_def)
  from assms(2) n e show ?thesis
    by (auto simp: loopBody_scanRound Let_def loopDone_def emit_def split: if_splits)
qed

lemma scrollLoop_done: "loopInv pg st \<Longrightarrow> loopDone pg (scrollLoop pg st)"
proof (induction pg st rule: scrollLoop.induct)
  case (1 pg st)
  show ?case
  proof (cases "scrollAttempts st < maxScrollAttempts")
    case False
    then have "scrollLoop pg st = st" by (subst scrollLoop.simps) simp
    with "1.prems" show ?thesis by (simp add: loopDone_def loopInv_def)
  next
    case True
    show ?thesis
    proof (cases "loopBody pg st")
      case (Break st')
      with True have "scrollLoop pg st = st'" by (subst scrollLoop.simps) simp
      with "1.prems" Break show ?thesis by (simp add: loopInv_Break)
    next
      case (Continue st')
      with True have "scrollLoop pg st = scrollLoop pg st'" by (subst scrollLoop.simps) simp
      moreover have "loopInv pg st'" using "1.prems" Continue by (rule loopInv_Continue)
      ultimately show ?thesis using "1.IH" [OF True Continue] by simp
    qed
  qed
qed

lemma loopBody_counter:
  assumes "loopInv pg st" and "\<not> reachedNextSection (sectionAt pg (scrollAttempts st))"
  shows "noNewEmojisCount (stateOf (loopBody pg st)) =
           (if noNewUrl pg (scrollAttempts st) then noNewEmojisCount st + 1 else 0)"
  using assms(2) scanRound_count [OF assms(1)]
  by (simp add: loopBody_scanRound Let_def scrollOn_def emit_def)

lemma loopBody_boundary:
  assumes "reachedNextSection (sectionAt pg (scrollAttempts st))"
  shows "loopBody pg st =
           Break (emit LogReachedNext
             (emit (LogAttempt (scrollAttempts st + 1) (length (emojiData (scanRound pg st))))
               (scanRound pg st)))"
  using assms by (simp add: loopBody_scanRound Let_def)

lemma loopBody_stagnant_Continue:
  assumes "loopInv pg st" and "\<not> reachedNextSection (sectionAt pg (scrollAttempts st))"
    and "noNewUrl pg (scrollAttempts st)" and "noNewEmojisCount st + 1 < 3"
  shows "\<exists>st'. loopBody pg st = Continue st' \<and> noNewEmojisCount st' = noNewEmojisCount st + 1"
  using assms(2,3,4) scanRound_count [OF assms(1)]
  by (simp add: loopBody_scanRound Let_def scrollOn_def emit_def)

lemma loopBody_stagnant_Break:
  assumes "loopInv pg st" and "\<not> reachedNextSection (sectionAt pg (scrollAttempts st))"
    and "noNewUrl pg (scrollAttempts st)" and "noNewEmojisCount st + 1 = 3"
  shows "\<exists>st'. loopBody pg st = Break st' \<and> noNewEmojisCount st' = 3 \<and>
           scrollAttempts st' = scrollAttempts st \<and>
           effects st' = effects st @
             [LogAttempt (scrollAttempts st + 1) (length (emojiData st')), LogNoNewEmojis]"
  using assms(2,3,4) scanRound_count [OF assms(1)]
  by (simp add: loopBody_scanRound Let_def scrollOn_def emit_def)

lemma roundState_counter_reset:
  assumes "roundState pg k = Some st" and "k = 0 \<or> \<not> noNewUrl pg (k - 1)"
  shows "noNewEmojisCount st = 0"
proof (cases k)
  case 0
  with assms(1) show ?thesis by (auto simp: initialState_def)
next
  case (Suc j)
  with assms(1) obtain st0 where r: "roundState pg j = Some st0"
    and b: "loopBody pg st0 = Continue st"
    by (auto split: option.splits if_splits step.splits)
  from roundState_reached [OF r] have i: "loopInv pg st0" and a: "scrollAttempts st0 = j"
    by simp_all
  from assms(2) Suc a have new: "\<not> noNewUrl pg (scrollAttempts st0)" by simp
  from b have nb: "\<not> reachedNextSection (sectionAt pg (scrollAttempts st0))"
    by (auto simp: loopBody_scanRound Let_def split: if_splits)
  from loopBody_counter [OF i nb] new b show ?thesis by simp
qed

lemma roundState_Suc:
  assumes "roundState pg k = Some st" and "k < maxScrollAttempts" and "loopBody pg st = Continue st'"
  shows "roundState pg (Suc k) = Some st'"
  using assms roundState_reached [OF assms(1)] by simp

lemma scrollLoop_Break:
  assumes "roundState pg k = Some st" and "k < maxScrollAttempts" and "loopBody pg st = Break st'"
  shows "scrollLoop pg initialState = st'"
proof -
  from roundState_reached [OF assms(1)] have a: "scrollAttempts st = k"
    and l: "scrollLoop pg initialState = scrollLoop pg st" by simp_all
  have "scrollLoop pg st = st'" using a assms(2,3) by (subst scrollLoop.simps) simp
  with l show ?thesis by simp
qed

text \<open>
  Claim C1. Whatever the rounds show, and however often a URL is repeated within a round
  or across rounds, the list the collector returns has no two elements with the same
  \<open>url\<close>; its URLs are those of the thumbnails of the rounds that were scanned (one
  \<open>LogAttempt\<close> per scan), each once, in the order of their first appearance; and the
  element for a URL is the descriptor of the first thumbnail that had it.
\<close>

theorem extractEmojiUrls_first_seen:
  assumes "evaluateBody pg = (Inr ds, evs)"
  shows "distinct (map url ds) \<and>
         map url ds =
           rev (remdups (rev (map url (map emojiDescriptor (scanned pg (length (filter isLogAttempt evs))))))) \<and>
         (\<forall>d\<in>set ds.
            find (\<lambda>x. url x = url d) (map emojiDescriptor (scanned pg (length (filter isLogAttempt evs)))) = Some d)"
proof -
  let ?f = "scrollLoop pg initialState"
  from assms have ds: "ds = emojisWithNames ?f" and evs: "evs = effects ?f"
    by (auto simp: evaluateBody_def Let_def split: if_splits)
  have "loopDone pg ?f" using loopInv_initialState by (rule scrollLoop_done)
  then have k: "ds = keepFirst [] (map emojiDescriptor (scanned pg (length (filter isLogAttempt evs))))"
    using ds evs by (simp add: loopDone_def)
  have "distinct (map url ds)" by (subst k) (rule keepFirst_distinct)
  moreover have "map url ds =
      rev (remdups (rev (map url (map emojiDescriptor (scanned pg (length (filter isLogAttempt evs)))))))"
    by (subst k) (rule keepFirst_first_seen)
  moreover have "\<forall>d\<in>set ds.
      find (\<lambda>x. url x = url d) (map emojiDescriptor (scanned pg (length (filter isLogAttempt evs)))) = Some d"
    using k keepFirst_find by blast
  ultimately show ?thesis by blast
qed

theorem extractEmojiUrls_first_seen_witness:
  "evaluateBody examplePage =
     (Inr [\<lparr>url = ''https://cdn.discordapp.com/emojis/1.webp?size=512&animated=true'', name = ''wave''\<rparr>,
           \<lparr>url = ''https://cdn.discordapp.com/emojis/2.webp?size=512'', name = ''smile''\<rparr>,
           \<lparr>url = ''https://cdn.discordapp.com/emojis/3.webp?size=512'', name = ''cat_face''\<rparr>],
      [LogAttempt 1 2, ScrollBy 200, Wait 1500, LogAttempt 2 3, LogReachedNext]) \<and>
   map url (map emojiDescriptor (scanned examplePage 2)) =
     [''https://cdn.discordapp.com/emojis/1.webp?size=512&animated=true'',
      ''https://cdn.discordapp.com/emojis/2.webp?size=512'',
      ''https://cdn.discordapp.com/emojis/2.webp?size=512'',
      ''https://cdn.discordapp.com/emojis/3.webp?size=512''] \<and>
   rev (remdups (rev (map url (map emojiDescriptor (scanned examplePage 2))))) =
     [''https://cdn.discordapp.com/emojis/1.webp?size=512&animated=true'',
      ''https://cdn.discordapp.com/emojis/2.webp?size=512'',
      ''https://cdn.discordapp.com/emojis/3.webp?size=512''] \<and>
   find (\<lambda>x. url x = ''https://cdn.discordapp.com/emojis/2.webp?size=512'')
     (map emojiDescriptor (scanned examplePage 2)) =
     Some \<lparr>url = ''https://cdn.discordapp.com/emojis/2.webp?size=512'', name = ''smile''\<rparr>"
proof -
  have h: "evaluateBody examplePage =
     (Inr [\<lparr>url = ''https://cdn.discordapp.com/emojis/1.webp?size=512&animated=true'', name = ''wave''\<rparr>,
           \<lparr>url = ''https://cdn.discordapp.com/emojis/2.webp?size=512'', name = ''smile''\<rparr>,
           \<lparr>url = ''https://cdn.discordapp.com/emojis/3.webp?size=512'', name = ''cat_face''\<rparr>],
      [LogAttempt 1 2, ScrollBy 200, Wait 1500, LogAttempt 2 3, LogReachedNext])"
    by code_simp
  have s: "map url (map emojiDescriptor (scanned examplePage 2)) =
     [''https://cdn.discordapp.com/emojis/1.webp?size=512&animated=true'',
      ''https://cdn.discordapp.com/emojis/2.webp?size=512'',
      ''https://cdn.discordapp.com/emojis/2.webp?size=512'',
      ''https://cdn.discordapp.com/emojis/3.webp?size=512'']"
    by code_simp
  have n: "length (filter isLogAttempt [LogAttempt 1 2, ScrollBy 200, Wait 1500, LogAttempt 2 3, LogReachedNext]) = 2"
    by simp
  note t = extractEmojiUrls_first_seen [OF h, unfolded n]
  show ?thesis
    using h s t by simp
qed

text \<open>
  Claim C5. At every round \<open>k\<close> the run reaches without a section boundary, the test
  \<^verbatim>\<open>currentEmojiCount === previousEmojiCount\<close> holds exactly when the round showed no new
  URL, and the counter \<open>noNewEmojisCount\<close> after the round is its old value plus one in
  that case and \<open>0\<close> otherwise. When \<open>k\<close> is the first of three consecutive rounds without
  a new URL (and without a boundary), all three below the cap, the loop stops at the third
  of them: \<open>scrollAttempts\<close> is \<open>k + 2\<close>, below \<open>maxScrollAttempts\<close>, the counter is
  \<open>3\<close>, and the last thing the loop did is log that no new emojis were loaded.
\<close>

theorem stagnation_stops_loop:
  assumes "roundState pg k = Some st" and "k < maxScrollAttempts"
    and "\<not> reachedNextSection (sectionAt pg k)"
  shows "(length (emojiData (foldl scanEmoji st (visibleEmojis (sectionAt pg k)))) = previousEmojiCount st)
           = noNewUrl pg k \<and>
         noNewEmojisCount (stateOf (loopBody pg st)) =
           (if noNewUrl pg k then noNewEmojisCount st + 1 else 0) \<and>
         ((k = 0 \<or> \<not> noNewUrl pg (k - 1)) \<and>
          noNewUrl pg k \<and> noNewUrl pg (k + 1) \<and> noNewUrl pg (k + 2) \<and>
          \<not> reachedNextSection (sectionAt pg (k + 1)) \<and>
          \<not> reachedNextSection (sectionAt pg (k + 2)) \<and>
          k + 2 < maxScrollAttempts \<longrightarrow>
            scrollAttempts (scrollLoop pg initialState) = k + 2 \<and>
            scrollAttempts (scrollLoop pg initialState) < maxScrollAttempts \<and>
            noNewEmojisCount (scrollLoop pg initialState) = 3 \<and>
            last (effects (scrollLoop pg initialState)) = LogNoNewEmojis \<and>
            length (filter isLogAttempt (effects (scrollLoop pg initialState))) = k + 3 \<and>
            length (filter isScrollBy (effects (scrollLoop pg initialState))) = k + 2)"
proof -
  from roundState_reached [OF assms(1)] have i: "loopInv pg st" and a: "scrollAttempts st = k"
    by simp_all
  have A: "(length (emojiData (foldl scanEmoji st (visibleEmojis (sectionAt pg k)))) = previousEmojiCount st)
             = noNewUrl pg k"
    using scanRound_count [OF i] a by (simp add: scanRound_def)
  have B: "noNewEmojisCount (stateOf (loopBody pg st)) =
             (if noNewUrl pg k then noNewEmojisCount st + 1 else 0)"
    using loopBody_counter [OF i] assms(3) a by simp
  have C: "scrollAttempts (scrollLoop pg initialState) = k + 2 \<and>
           scrollAttempts (scrollLoop pg initialState) < maxScrollAttempts \<and>
           noNewEmojisCount (scrollLoop pg initialState) = 3 \<and>
           last (effects (scrollLoop pg initialState)) = LogNoNewEmojis \<and>
           length (filter isLogAttempt (effects (scrollLoop pg initialState))) = k + 3 \<and>
           length (filter isScrollBy (effects (scrollLoop pg initialState))) = k + 2"
    if first: "k = 0 \<or> \<not> noNewUrl pg (k - 1)"
      and n0: "noNewUrl pg k" and n1: "noNewUrl pg (k + 1)" and n2: "noNewUrl pg (k + 2)"
      and b1: "\<not> reachedNextSection (sectionAt pg (k + 1))"
      and b2: "\<not> reachedNextSection (sectionAt pg (k + 2))"
      and lt: "k + 2 < maxScrollAttempts"
  proof -
    have c0: "noNewEmojisCount st = 0" using assms(1) first by (rule roundState_counter_reset)
    \<comment> \<open>round \<open>k\<close>\<close>
    obtain st1 where s1: "loopBody pg st = Continue st1" and c1: "noNewEmojisCount st1 = 1"
      using loopBody_stagnant_Continue [OF i] assms(3) n0 c0 a by auto
    have r1: "roundState pg (Suc k) = Some st1" using assms(1,2) s1 by (rule roundState_Suc)
    from roundState_reached [OF r1] have i1: "loopInv pg st1" and a1: "scrollAttempts st1 = k + 1"
      by simp_all
    \<comment> \<open>round \<open>k + 1\<close>\<close>
    obtain st2 where s2: "loopBody pg st1 = Continue st2" and c2: "noNewEmojisCount st2 = 2"
      using loopBody_stagnant_Continue [OF i1] b1 n1 c1 a1 by auto
    have lt1: "Suc k < maxScrollAttempts" and lt2: "Suc (Suc k) < maxScrollAttempts"
      using lt by simp_all
    have r2: "roundState pg (Suc (Suc k)) = Some st2"
      using r1 lt1 s2 by (rule roundState_Suc)
    from roundState_reached [OF r2] have i2: "loopInv pg st2" and a2: "scrollAttempts st2 = k + 2"
      by simp_all
    \<comment> \<open>round \<open>k + 2\<close>\<close>
    obtain st3 where s3: "loopBody pg st2 = Break st3" and c3: "noNewEmojisCount st3 = 3"
      and a3: "scrollAttempts st3 = k + 2"
      and e3: "effects st3 = effects st2 @
                 [LogAttempt (scrollAttempts st2 + 1) (length (emojiData st3)), LogNoNewEmojis]"
      using loopBody_stagnant_Break [OF i2] b2 n2 c2 a2 by auto
    have f: "scrollLoop pg initialState = st3"
      using r2 lt2 s3 by (rule scrollLoop_Break)
    from i2 a2 have "length (filter isLogAttempt (effects st2)) = k + 2"
      "length (filter isScrollBy (effects st2)) = k + 2"
      by (simp_all add: loopInv_def)
    with f c3 a3 e3 lt show ?thesis by simp
  qed
  from A B C show ?thesis by blast
qed

theorem stagnation_stops_loop_witness:
  "roundState stalledPage 1 =
     Some \<lparr>emojiData = [''https://cdn.discordapp.com/emojis/1.webp?size=512&animated=true'',
                         ''https://cdn.discordapp.com/emojis/2.webp?size=512''],
           emojisWithNames =
             [\<lparr>url = ''https://cdn.discordapp.com/emojis/1.webp?size=512&animated=true'', name = ''wave''\<rparr>,
              \<lparr>url = ''https://cdn.discordapp.com/emojis/2.webp?size=512'', name = ''smile''\<rparr>],
           previousEmojiCount = 2, scrollAttempts = 1, noNewEmojisCount = 0,
           effects = [LogAttempt 1 2, ScrollBy 200, Wait 1500]\<rparr> \<and>
   \<not> noNewUrl stalledPage 0 \<and>
   noNewUrl stalledPage 1 \<and> noNewUrl stalledPage 2 \<and> noNewUrl stalledPage 3 \<and>
   \<not> reachedNextSection (sectionAt stalledPage 1) \<and>
   \<not> reachedNextSection (sectionAt stalledPage 2) \<and>
   \<not> reachedNextSection (sectionAt stalledPage 3) \<and>
   scrollAttempts (scrollLoop stalledPage initialState) = 3 \<and>
   scrollAttempts (scrollLoop stalledPage initialState) < maxScrollAttempts \<and>
   noNewEmojisCount (scrollLoop stalledPage initialState) = 3 \<and>
   last (effects (scrollLoop stalledPage initialState)) = LogNoNewEmojis \<and>
   length (filter isLogAttempt (effects (scrollLoop stalledPage initialState))) = 4"
proof -
  let ?st = "\<lparr>emojiData = [''https://cdn.discordapp.com/emojis/1.webp?size=512&animated=true'',
                         ''https://cdn.discordapp.com/emojis/2.webp?size=512''],
           emojisWithNames =
             [\<lparr>url = ''https://cdn.discordapp.com/emojis/1.webp?size=512&animated=true'', name = ''wave''\<rparr>,
              \<lparr>url = ''https://cdn.discordapp.com/emojis/2.webp?size=512'', name = ''smile''\<rparr>],
           previousEmojiCount = 2, scrollAttempts = 1, noNewEmojisCount = 0,
           effects = [LogAttempt 1 2, ScrollBy 200, Wait 1500]\<rparr>"
  have h1: "roundState stalledPage 1 = Some ?st" by code_simp
  have h2: "(1::nat) < maxScrollAttempts" by (simp add: maxScrollAttempts_def)
  have h3: "\<not> reachedNextSection (sectionAt stalledPage 1)" by code_simp
  have g0: "\<not> noNewUrl stalledPage 0" by code_simp
  have g1: "noNewUrl stalledPage 1" by code_simp
  have g2: "noNewUrl stalledPage 2" by code_simp
  have g3: "noNewUrl stalledPage 3" by code_simp
  have b2: "\<not> reachedNextSection (sectionAt stalledPage 2)" by code_simp
  have b3: "\<not> reachedNextSection (sectionAt stalledPage 3)" by code_simp
  have m: "(1::nat) + 2 < maxScrollAttempts" by (simp add: maxScrollAttempts_def)
  show ?thesis
    using h1 h3 g0 g1 g2 g3 b2 b3 m stagnation_stops_loop [OF h1 h2 h3]
    by (simp add: numeral_3_eq_3 numeral_2_eq_2)
qed

text \<open>
  Claim C6. When the run reaches round \<open>k\<close> and the next sibling of the section is then a
  new category section, the loop stops in that round: the round's thumbnails have been
  scanned and counted, the two log lines are the last effects, no scroll follows (the
  scrolls are the \<open>k\<close> of the rounds before), and the counter of rounds without new emojis
  is what it was, below \<open>3\<close>.
\<close>

theorem boundary_stops_loop:
  assumes "roundState pg k = Some st" and "k < maxScrollAttempts"
    and "reachedNextSection (sectionAt pg k)"
  shows "(\<exists>st'. loopBody pg st = Break st' \<and> scrollLoop pg initialState = st') \<and>
         scrollAttempts (scrollLoop pg initialState) = k \<and>
         effects (scrollLoop pg initialState) =
           effects st @ [LogAttempt (k + 1) (length (emojiData (scrollLoop pg initialState))), LogReachedNext] \<and>
         length (filter isScrollBy (effects (scrollLoop pg initialState))) = k \<and>
         length (filter isLogAttempt (effects (scrollLoop pg initialState))) = k + 1 \<and>
         set (roundUrls pg k) \<subseteq> set (map url (emojisWithNames (scrollLoop pg initialState))) \<and>
         noNewEmojisCount (scrollLoop pg initialState) = noNewEmojisCount st \<and>
         noNewEmojisCount st < 3"
proof -
  let ?f = "emit LogReachedNext
             (emit (LogAttempt (k + 1) (length (emojiData (scanRound pg st)))) (scanRound pg st))"
  from roundState_reached [OF assms(1)] have i: "loopInv pg st" and a: "scrollAttempts st = k"
    by simp_all
  from assms(3) a have b: "loopBody pg st = Break ?f"
    using loopBody_boundary [of pg st] by simp
  have f: "scrollLoop pg initialState = ?f" using assms(1,2) b by (rule scrollLoop_Break)
  from i have e: "length (filter isLogAttempt (effects st)) = k"
    "length (filter isScrollBy (effects st)) = k" "noNewEmojisCount st < 3"
    using a by (simp_all add: loopInv_def)
  have "set (map url (emojisWithNames (scanRound pg st))) =
          set (map url (map emojiDescriptor (scanned pg (Suc k))))"
    using scanRound_names(1) [OF i] a by (simp only: keepFirst_urls)
  then have u: "set (roundUrls pg k) \<subseteq> set (map url (emojisWithNames (scanRound pg st)))"
    by (auto simp: scanned_Suc roundUrls_def)
  show ?thesis
    unfolding f using b a e u by (simp add: emit_def)
qed

theorem boundary_stops_loop_witness:
  "roundState examplePage 1 =
     Some \<lparr>emojiData = [''https://cdn.discordapp.com/emojis/1.webp?size=512&animated=true'',
                         ''https://cdn.discordapp.com/emojis/2.webp?size=512''],
           emojisWithNames =
             [\<lparr>url = ''https://cdn.discordapp.com/emojis/1.webp?size=512&animated=true'', name = ''wave''\<rparr>,
              \<lparr>url = ''https://cdn.discordapp.com/emojis/2.webp?size=512'', name = ''smile''\<rparr>],
           previousEmojiCount = 2, scrollAttempts = 1, noNewEmojisCount = 0,
           effects = [LogAttempt 1 2, ScrollBy 200, Wait 1500]\<rparr> \<and>
   (1::nat) < maxScrollAttempts \<and>
   reachedNextSection (sectionAt examplePage 1) \<and>
   scrollAttempts (scrollLoop examplePage initialState) = 1 \<and>
   effects (scrollLoop examplePage initialState) =
     [LogAttempt 1 2, ScrollBy 200, Wait 1500, LogAttempt 2 3, LogReachedNext] \<and>
   length (filter isScrollBy (effects (scrollLoop examplePage initialState))) = 1 \<and>
   noNewEmojisCount (scrollLoop examplePage initialState) = 0"
proof -
  let ?st = "\<lparr>emojiData = [''https://cdn.discordapp.com/emojis/1.webp?size=512&animated=true'',
                         ''https://cdn.discordapp.com/emojis/2.webp?size=512''],
           emojisWithNames =
             [\<lparr>url = ''https://cdn.discordapp.com/emojis/1.webp?size=512&animated=true'', name = ''wave''\<rparr>,
              \<lparr>url = ''https://cdn.discordapp.com/emojis/2.webp?size=512'', name = ''smile''\<rparr>],
           previousEmojiCount = 2, scrollAttempts = 1, noNewEmojisCount = 0,
           effects = [LogAttempt 1 2, ScrollBy 200, Wait 1500]\<rparr>"
  have h1: "roundState examplePage 1 = Some ?st" by code_simp
  have h2: "(1::nat) < maxScrollAttempts" by (simp add: maxScrollAttempts_def)
  have h3: "reachedNextSection (sectionAt examplePage 1)" by code_simp
  have n: "length (emojiData (scrollLoop examplePage initialState)) = 3" by code_simp
  show ?thesis
    using h1 h2 h3 n boundary_stops_loop [OF h1 h2 h3] by simp
qed

text \<open>
  Claim C7, as the spec states it, fails: when an earlier parameter of the URL ends in
  \<^verbatim>\<open>size=\<close> followed by digits, it is that text the expression matches, and the size
  parameter keeps its value.
\<close>

theorem resize_parameter_counterexample:
  "url (emojiDescriptor
      \<lparr>src = ''https://cdn.discordapp.com/emojis/1.webp?resize=100&size=48&animated=true'', alt = '':wave:''\<rparr>)
     = ''https://cdn.discordapp.com/emojis/1.webp?resize=512&size=48&animated=true'' \<and>
   \<not> includes_str
      (url (emojiDescriptor
         \<lparr>src = ''https://cdn.discordapp.com/emojis/1.webp?resize=100&size=48&animated=true'', alt = '':wave:''\<rparr>))
      ''&size=512''"
  by code_simp

text \<open>
  Claim C7, amended. For every thumbnail whose \<^verbatim>\<open>src\<close> contains \<^verbatim>\<open>size=\<close> followed by digits, the URL of
  the descriptor the collector builds contains \<^verbatim>\<open>size=512\<close>, and when the \<^verbatim>\<open>src\<close> contains
  \<^verbatim>\<open>animated=true\<close>, so does that URL. What is rewritten is the leftmost place of the \<^verbatim>\<open>src\<close>
  where \<^verbatim>\<open>size=\<close> is followed by digits: the URL is the \<^verbatim>\<open>src\<close> with the whole run of digits
  there replaced by \<^verbatim>\<open>512\<close> and nothing else changed. So the size parameter is rewritten
  when it is that leftmost place.
\<close>

theorem emojiDescriptor_size_512:
  assumes "src e = pre @ ''size='' @ ds @ post" and "ds \<noteq> []" and "\<forall>c\<in>set ds. isDigit c"
  shows "includes_str (url (emojiDescriptor e)) ''size=512'' \<and>
         (includes_str (src e) ''animated=true'' \<longrightarrow>
            includes_str (url (emojiDescriptor e)) ''animated=true'') \<and>
         (\<exists>pre' ds' post'.
            src e = pre' @ ''size='' @ ds' @ post' \<and> ds' \<noteq> [] \<and> (\<forall>c\<in>set ds'. isDigit c) \<and>
            (\<forall>i<length pre'. \<not> sizeMatch (drop i (src e))) \<and> (post' = [] \<or> \<not> isDigit (hd post')) \<and>
            url (emojiDescriptor e) = pre' @ ''size=512'' @ post') \<and>
         ((\<forall>i<length pre. \<not> sizeMatch (drop i (src e))) \<and> (post = [] \<or> \<not> isDigit (hd post)) \<longrightarrow>
            url (emojiDescriptor e) = pre @ ''size=512'' @ post)"
proof -
  have u: "url (emojiDescriptor e) = replaceSize (src e)"
    by (simp add: emojiDescriptor_def highQualitySrc_replaceSize)
  have rewrite: "replaceSize (src e) = p @ ''size=512'' @ q"
    if "src e = p @ ''size='' @ d @ q" and "d \<noteq> []" and "\<forall>c\<in>set d. isDigit c"
      and "\<forall>i<length p. \<not> sizeMatch (drop i (src e))" and "q = [] \<or> \<not> isDigit (hd q)"
    for p d q
  proof -
    have "replaceSize (p @ ''size='' @ d @ q) = p @ replaceSize (''size='' @ d @ q)"
      using that(4,1) by (intro replaceSize_leftmost) simp
    also have "replaceSize (''size='' @ d @ q) = ''size=512'' @ q"
      using that(2,3,5) by (rule replaceSize_match)
    finally show ?thesis using that(1) by simp
  qed
  have "sizeMatch (''size='' @ ds @ post)" using assms(2,3) by (rule sizeMatch_at)
  then have m: "sizeMatch (drop (length pre) (src e))" using assms(1) by simp
  then have c1: "includes_str (replaceSize (src e)) ''size=512''" by (rule replaceSize_contains)
  from leftmost_match [OF m] obtain pre' ds' post' where
    l: "src e = pre' @ ''size='' @ ds' @ post'" "ds' \<noteq> []" "\<forall>c\<in>set ds'. isDigit c"
      "\<forall>i<length pre'. \<not> sizeMatch (drop i (src e))" "post' = [] \<or> \<not> isDigit (hd post')"
    by blast
  have c2: "\<exists>pre' ds' post'.
            src e = pre' @ ''size='' @ ds' @ post' \<and> ds' \<noteq> [] \<and> (\<forall>c\<in>set ds'. isDigit c) \<and>
            (\<forall>i<length pre'. \<not> sizeMatch (drop i (src e))) \<and> (post' = [] \<or> \<not> isDigit (hd post')) \<and>
            url (emojiDescriptor e) = pre' @ ''size=512'' @ post'"
    using l rewrite [OF l] u by (intro exI [of _ pre'] exI [of _ ds'] exI [of _ post']) simp
  have c3: "replaceSize (src e) = pre @ ''size=512'' @ post"
    if "\<forall>i<length pre. \<not> sizeMatch (drop i (src e))" and "post = [] \<or> \<not> isDigit (hd post)"
    using assms that by (rule rewrite)
  show ?thesis using c1 c2 c3 u by (simp add: replaceSize_keeps_animated)
qed

theorem emojiDescriptor_size_512_witness:
  "url (emojiDescriptor \<lparr>src = ''https://cdn.discordapp.com/emojis/1.webp?size=64&animated=true'', alt = '':wave:''\<rparr>)
     = ''https://cdn.discordapp.com/emojis/1.webp?size=512&animated=true'' \<and>
   includes_str (url (emojiDescriptor \<lparr>src = ''https://cdn.discordapp.com/emojis/1.webp?size=64&animated=true'', alt = '':wave:''\<rparr>)) ''size=512'' \<and>
   includes_str (url (emojiDescriptor \<lparr>src = ''https://cdn.discordapp.com/emojis/1.webp?size=64&animated=true'', alt = '':wave:''\<rparr>)) ''animated=true''"
proof -
  let ?s = "''https://cdn.discordapp.com/emojis/1.webp?size=64&animated=true''"
  let ?e = "\<lparr>src = ?s, alt = '':wave:''\<rparr>"
  have h1: "src ?e = ''https://cdn.discordapp.com/emojis/1.webp?'' @ ''size='' @ ''64'' @ ''&animated=true''"
    by simp
  have h2: "''64'' \<noteq> []" by simp
  have h3: "\<forall>c\<in>set ''64''. isDigit c" by (simp add: isDigit_def)
  have h4: "includes_str (src ?e) ''animated=true''" by simp
  have "\<forall>i\<in>{..<length ''https://cdn.discordapp.com/emojis/1.webp?''}. \<not> sizeMatch (drop i ?s)"
    by code_simp
  then have h5: "\<forall>i<length ''https://cdn.discordapp.com/emojis/1.webp?''. \<not> sizeMatch (drop i (src ?e))"
    by (simp only: lessThan_iff Ball_def img.simps)
  have h6: "''&animated=true'' = [] \<or> \<not> isDigit (hd ''&animated=true'')"
    by (simp add: isDigit_def)
  note t = emojiDescriptor_size_512 [OF h1 h2 h3]
  from t h5 h6 have a: "url (emojiDescriptor ?e) =
      ''https://cdn.discordapp.com/emojis/1.webp?'' @ ''size=512'' @ ''&animated=true''"
    by blast
  from t have b: "includes_str (url (emojiDescriptor ?e)) ''size=512''" by blast
  from t h4 have c: "includes_str (url (emojiDescriptor ?e)) ''animated=true''" by blast
  from a b c show ?thesis by simp
qed

text \<open>
  Claim C8. When the picker container is absent the collector fails with the message
  naming the container, and when the container is present and the section is absent it
  fails with the message naming the section; in both cases the error is what
  \<open>extractEmojiUrls\<close> returns to its caller, and nothing was scanned, scrolled or tried
  again. When both elements are present no error is raised: the result is the list the
  scroll loop collected.
\<close>

theorem extractEmojiUrls_structural_not_found:
  "(\<not> emojiPickerContainer pg \<longrightarrow>
      extractEmojiUrls pg = Inl ''Emoji picker container not found'' \<and> snd (evaluateBody pg) = []) \<and>
   (emojiPickerContainer pg \<and> \<not> serverEmojiSection pg \<longrightarrow>
      extractEmojiUrls pg = Inl ''Server emoji section not found'' \<and> snd (evaluateBody pg) = []) \<and>
   (emojiPickerContainer pg \<and> serverEmojiSection pg \<longrightarrow>
      extractEmojiUrls pg = Inr (emojisWithNames (scrollLoop pg initialState)))"
  by (simp add: extractEmojiUrls_def evaluateBody_def Let_def)

theorem extractEmojiUrls_structural_not_found_witness:
  "extractEmojiUrls \<lparr>emojiPickerContainer = False, serverEmojiSection = False,
      sectionAt = (\<lambda>k. \<lparr>imgs = [], nextElementSibling = None\<rparr>)\<rparr>
     = Inl ''Emoji picker container not found'' \<and>
   extractEmojiUrls \<lparr>emojiPickerContainer = True, serverEmojiSection = False,
      sectionAt = (\<lambda>k. \<lparr>imgs = [], nextElementSibling = None\<rparr>)\<rparr>
     = Inl ''Server emoji section not found'' \<and>
   extractEmojiUrls \<lparr>emojiPickerContainer = True, serverEmojiSection = True,
      sectionAt = (\<lambda>k. \<lparr>imgs = [\<lparr>src = ''https://cdn.discordapp.com/emojis/7.webp?size=48'', alt = '':ok:''\<rparr>],
                          nextElementSibling = Some [''categorySection_c656ac'']\<rparr>)\<rparr>
     = Inr [\<lparr>url = ''https://cdn.discordapp.com/emojis/7.webp?size=512'', name = ''ok''\<rparr>]"
proof -
  let ?v = "\<lambda>k::nat. \<lparr>imgs = [], nextElementSibling = None\<rparr>"
  let ?w = "\<lambda>k::nat. \<lparr>imgs = [\<lparr>src = ''https://cdn.discordapp.com/emojis/7.webp?size=48'', alt = '':ok:''\<rparr>],
                          nextElementSibling = Some [''categorySection_c656ac'']\<rparr>"
  have "emojisWithNames (scrollLoop \<lparr>emojiPickerContainer = True, serverEmojiSection = True, sectionAt = ?w\<rparr> initialState)
      = [\<lparr>url = ''https://cdn.discordapp.com/emojis/7.webp?size=512'', name = ''ok''\<rparr>]"
    by code_simp
  then show ?thesis
    using extractEmojiUrls_structural_not_found
            [of "\<lparr>emojiPickerContainer = False, serverEmojiSection = False, sectionAt = ?v\<rparr>"]
          extractEmojiUrls_structural_not_found
            [of "\<lparr>emojiPickerContainer = True, serverEmojiSection = False, sectionAt = ?v\<rparr>"]
          extractEmojiUrls_structural_not_found
            [of "\<lparr>emojiPickerContainer = True, serverEmojiSection = True, sectionAt = ?w\<rparr>"]
    by simp
qed

section \<open>Properties of the pipeline\<close>

subsection \<open>The \<^verbatim>\<open>try\<close> block\<close>

lemma prepared_Inr:
  assumes "prepared rt emojiSize e = Inr r"
  shows "\<exists>resp buf. fetch rt (url e) = Inr resp \<and> ok resp \<and> arrayBuffer resp = Inr buf \<and> buf \<noteq> [] \<and>
           sharpWebp rt buf (includes_str (url e) ''animated=true'') emojiSize = Inr r \<and> r \<noteq> []"
  using assms by (auto simp: prepared_def split: sum.splits if_splits)

lemma tryBlock_failedI:
  assumes "\<forall>w. tryBlock rt index e sv outputBaseDir emojiSize w = (Inl msg, w\<lparr>console := console w @ ls\<rparr>)"
    and "\<forall>l\<in>set ls. failedIndex l = None \<and> \<not> isDownloading l"
  shows "\<exists>ls. (\<forall>w. tryBlock rt index e sv outputBaseDir emojiSize w = (Inl msg, w\<lparr>console := console w @ ls\<rparr>)) \<and>
              (\<forall>l\<in>set ls. failedIndex l = None \<and> \<not> isDownloading l)"
  using assms by blast

lemma tryBlock_failed:
  assumes "prepared rt emojiSize e = Inl msg"
  shows "\<exists>ls. (\<forall>w. tryBlock rt index e sv outputBaseDir emojiSize w = (Inl msg, w\<lparr>console := console w @ ls\<rparr>)) \<and>
              (\<forall>l\<in>set ls. failedIndex l = None \<and> \<not> isDownloading l)"
proof (cases "fetch rt (url e)")
  case (Inl m)
  with assms have "\<forall>w. tryBlock rt index e sv outputBaseDir emojiSize w = (Inl msg, w\<lparr>console := console w @ []\<rparr>)"
    by (simp add: prepared_def tryBlock_def)
  then show ?thesis by (rule tryBlock_failedI) simp
next
  case (Inr resp)
  note f = this
  show ?thesis
  proof (cases "ok resp")
    case False
    with assms f have "\<forall>w. tryBlock rt index e sv outputBaseDir emojiSize w = (Inl msg, w\<lparr>console := console w @ []\<rparr>)"
      by (simp add: prepared_def tryBlock_def)
    then show ?thesis by (rule tryBlock_failedI) simp
  next
    case True
    note k = this
    show ?thesis
    proof (cases "arrayBuffer resp")
      case (Inl m)
      with assms f k have "\<forall>w. tryBlock rt index e sv outputBaseDir emojiSize w = (Inl msg, w\<lparr>console := console w @ []\<rparr>)"
        by (simp add: prepared_def tryBlock_def)
      then show ?thesis by (rule tryBlock_failedI) simp
    next
      case (Inr buf)
      note a = this
      let ?l1 = "Downloaded (index + 1) (emoji.name e) (length buf)"
      show ?thesis
      proof (cases "buf = []")
        case True
        with assms f k a have "\<forall>w. tryBlock rt index e sv outputBaseDir emojiSize w = (Inl msg, w\<lparr>console := console w @ [?l1]\<rparr>)"
          by (simp add: prepared_def tryBlock_def say_def)
        then show ?thesis by (rule tryBlock_failedI) simp
      next
        case False
        note b = this
        show ?thesis
        proof (cases "sharpWebp rt buf (includes_str (url e) ''animated=true'') emojiSize")
          case (Inl m)
          with assms f k a b have "\<forall>w. tryBlock rt index e sv outputBaseDir emojiSize w = (Inl msg, w\<lparr>console := console w @ [?l1]\<rparr>)"
            by (simp add: prepared_def tryBlock_def say_def)
          then show ?thesis by (rule tryBlock_failedI) simp
        next
          case (Inr r)
          with assms f k a b have r: "r = []"
            by (simp add: prepared_def split: if_splits)
          with assms f k a b Inr
          have "\<forall>w. tryBlock rt index e sv outputBaseDir emojiSize w =
                  (Inl msg, w\<lparr>console := console w @ [?l1, Processed (index + 1) (emoji.name e) (length r)]\<rparr>)"
            by (simp add: prepared_def tryBlock_def say_def)
          then show ?thesis by (rule tryBlock_failedI) simp
        qed
      qed
    qed
  qed
qed

lemma tryBlock_prepared:
  assumes "prepared rt emojiSize e = Inr r"
  shows "\<exists>n. \<forall>w. tryBlock rt index e sv outputBaseDir emojiSize w =
           (let w2 = w\<lparr>console := console w @ [Downloaded (index + 1) (emoji.name e) n,
                                                Processed (index + 1) (emoji.name e) (length r)]\<rparr>;
                filePath = filePathOf rt sv outputBaseDir e
            in case bunWrite rt filePath r (files w) of
                 (Some msg, fs') \<Rightarrow> (Inl msg, w2\<lparr>files := fs'\<rparr>)
               | (None, fs') \<Rightarrow>
                   let w3 = w2\<lparr>files := fs',
                               console := console w2 @ [Saved (emoji.name e @ ''.webp'') (folder sv)]\<rparr>
                   in (case bunFileArrayBuffer rt filePath fs' of
                         Inl msg \<Rightarrow> (Inl msg, w3)
                       | Inr onDisk \<Rightarrow>
                           (Inr (), w3\<lparr>console := console w3 @ [FileSizeOnDisk (length onDisk)]\<rparr>)))"
proof -
  from prepared_Inr [OF assms] obtain resp buf where
    f: "fetch rt (url e) = Inr resp" "ok resp" "arrayBuffer resp = Inr buf" "buf \<noteq> []"
      "sharpWebp rt buf (includes_str (url e) ''animated=true'') emojiSize = Inr r" "r \<noteq> []"
    by blast
  have "\<forall>w. tryBlock rt index e sv outputBaseDir emojiSize w =
           (let w2 = w\<lparr>console := console w @ [Downloaded (index + 1) (emoji.name e) (length buf),
                                                Processed (index + 1) (emoji.name e) (length r)]\<rparr>;
                filePath = filePathOf rt sv outputBaseDir e
            in case bunWrite rt filePath r (files w) of
                 (Some msg, fs') \<Rightarrow> (Inl msg, w2\<lparr>files := fs'\<rparr>)
               | (None, fs') \<Rightarrow>
                   let w3 = w2\<lparr>files := fs',
                               console := console w2 @ [Saved (emoji.name e @ ''.webp'') (folder sv)]\<rparr>
                   in (case bunFileArrayBuffer rt filePath fs' of
                         Inl msg \<Rightarrow> (Inl msg, w3)
                       | Inr onDisk \<Rightarrow>
                           (Inr (), w3\<lparr>console := console w3 @ [FileSizeOnDisk (length onDisk)]\<rparr>)))"
    using f by (simp add: tryBlock_def say_def Let_def filePathOf_def split: prod.splits option.splits sum.splits)
  then show ?thesis by blast
qed

subsection \<open>One turn of the loop\<close>

lemma processEntry_returns: "fst (processEntry rt len sv outputBaseDir emojiSize entry w) = Inr ()"
  by (simp add: processEntry_def Let_def split: prod.splits sum.splits)

lemma forOf_processEntry:
  "forOf (processEntry rt len sv outputBaseDir emojiSize) xs w =
     (Inr (), foldl (turn rt len sv outputBaseDir emojiSize) w xs)"
proof (induction xs arbitrary: w)
  case Nil
  then show ?case by simp
next
  case (Cons x xs)
  obtain w' where p: "processEntry rt len sv outputBaseDir emojiSize x w = (Inr (), w')"
    using processEntry_returns [of rt len sv outputBaseDir emojiSize x w]
    by (cases "processEntry rt len sv outputBaseDir emojiSize x w") auto
  then have "turn rt len sv outputBaseDir emojiSize w x = w'" by (simp add: turn_def)
  with p Cons.IH [of w'] show ?case by simp
qed

lemma turn_failed:
  assumes "prepared rt emojiSize e = Inl msg"
  shows "\<exists>ls. (\<forall>w. turn rt len sv outputBaseDir emojiSize w (i, e) =
           w\<lparr>console := console w @ Downloading (i + 1) len (emoji.name e) (url e) # ls @
                 [FailedToProcess (i + 1) (emoji.name e) (server.name sv) msg]\<rparr>) \<and>
           (\<forall>l\<in>set ls. failedIndex l = None \<and> \<not> isDownloading l)"
proof -
  from tryBlock_failed [OF assms, of i sv outputBaseDir] obtain ls where
    t: "\<And>w. tryBlock rt i e sv outputBaseDir emojiSize w = (Inl msg, w\<lparr>console := console w @ ls\<rparr>)"
    and n: "\<forall>l\<in>set ls. failedIndex l = None \<and> \<not> isDownloading l"
    by blast
  have "\<forall>w. turn rt len sv outputBaseDir emojiSize w (i, e) =
           w\<lparr>console := console w @ Downloading (i + 1) len (emoji.name e) (url e) # ls @
                 [FailedToProcess (i + 1) (emoji.name e) (server.name sv) msg]\<rparr>"
    by (simp add: turn_def processEntry_def Let_def say_def t)
  with n show ?thesis by blast
qed

lemma turn_failed_files:
  assumes "prepared rt emojiSize e = Inl msg"
  shows "files (turn rt len sv outputBaseDir emojiSize w (i, e)) = files w"
  using turn_failed [OF assms, of len sv outputBaseDir i] by auto

lemma turn_prepared:
  assumes "prepared rt emojiSize e = Inr r"
  shows "\<exists>n. \<forall>w. turn rt len sv outputBaseDir emojiSize w (i, e) =
           (let before = console w @ [Downloading (i + 1) len (emoji.name e) (url e),
                                      Downloaded (i + 1) (emoji.name e) n,
                                      Processed (i + 1) (emoji.name e) (length r)];
                filePath = filePathOf rt sv outputBaseDir e;
                failed = (\<lambda>msg. FailedToProcess (i + 1) (emoji.name e) (server.name sv) msg);
                saved = Saved (emoji.name e @ ''.webp'') (folder sv)
            in case bunWrite rt filePath r (files w) of
                 (Some msg, fs') \<Rightarrow> w\<lparr>files := fs', console := before @ [failed msg]\<rparr>
               | (None, fs') \<Rightarrow>
                   (case bunFileArrayBuffer rt filePath fs' of
                      Inl msg \<Rightarrow> w\<lparr>files := fs', console := before @ [saved, failed msg]\<rparr>
                    | Inr onDisk \<Rightarrow>
                        w\<lparr>files := fs', console := before @ [saved, FileSizeOnDisk (length onDisk)]\<rparr>))"
proof -
  from tryBlock_prepared [OF assms, of i sv outputBaseDir] obtain n where
    t: "\<And>w. tryBlock rt i e sv outputBaseDir emojiSize w =
           (let w2 = w\<lparr>console := console w @ [Downloaded (i + 1) (emoji.name e) n,
                                                Processed (i + 1) (emoji.name e) (length r)]\<rparr>;
                filePath = filePathOf rt sv outputBaseDir e
            in case bunWrite rt filePath r (files w) of
                 (Some msg, fs') \<Rightarrow> (Inl msg, w2\<lparr>files := fs'\<rparr>)
               | (None, fs') \<Rightarrow>
                   let w3 = w2\<lparr>files := fs',
                               console := console w2 @ [Saved (emoji.name e @ ''.webp'') (folder sv)]\<rparr>
                   in (case bunFileArrayBuffer rt filePath fs' of
                         Inl msg \<Rightarrow> (Inl msg, w3)
                       | Inr onDisk \<Rightarrow>
                           (Inr (), w3\<lparr>console := console w3 @ [FileSizeOnDisk (length onDisk)]\<rparr>)))"
    by blast
  have "\<forall>w. turn rt len sv outputBaseDir emojiSize w (i, e) =
           (let before = console w @ [Downloading (i + 1) len (emoji.name e) (url e),
                                      Downloaded (i + 1) (emoji.name e) n,
                                      Processed (i + 1) (emoji.name e) (length r)];
                filePath = filePathOf rt sv outputBaseDir e;
                failed = (\<lambda>msg. FailedToProcess (i + 1) (emoji.name e) (server.name sv) msg);
                saved = Saved (emoji.name e @ ''.webp'') (folder sv)
            in case bunWrite rt filePath r (files w) of
                 (Some msg, fs') \<Rightarrow> w\<lparr>files := fs', console := before @ [failed msg]\<rparr>
               | (None, fs') \<Rightarrow>
                   (case bunFileArrayBuffer rt filePath fs' of
                      Inl msg \<Rightarrow> w\<lparr>files := fs', console := before @ [saved, failed msg]\<rparr>
                    | Inr onDisk \<Rightarrow>
                        w\<lparr>files := fs', console := before @ [saved, FileSizeOnDisk (length onDisk)]\<rparr>))"
    unfolding turn_def processEntry_def prod.case Let_def t
    by (simp add: say_def split: prod.splits option.splits sum.splits)
  then show ?thesis by blast
qed

lemma turn_overwrite_files:
  assumes "prepared rt emojiSize e = Inr r" and "bunWrite rt = overwriteFile"
  shows "files (turn rt len sv outputBaseDir emojiSize w (i, e)) =
           (files w)(filePathOf rt sv outputBaseDir e \<mapsto> r)"
proof -
  from turn_prepared [OF assms(1), of len sv outputBaseDir i] obtain n where
    t: "turn rt len sv outputBaseDir emojiSize w (i, e) =
           (let before = console w @ [Downloading (i + 1) len (emoji.name e) (url e),
                                      Downloaded (i + 1) (emoji.name e) n,
                                      Processed (i + 1) (emoji.name e) (length r)];
                filePath = filePathOf rt sv outputBaseDir e;
                failed = (\<lambda>msg. FailedToProcess (i + 1) (emoji.name e) (server.name sv) msg);
                saved = Saved (emoji.name e @ ''.webp'') (folder sv)
            in case bunWrite rt filePath r (files w) of
                 (Some msg, fs') \<Rightarrow> w\<lparr>files := fs', console := before @ [failed msg]\<rparr>
               | (None, fs') \<Rightarrow>
                   (case bunFileArrayBuffer rt filePath fs' of
                      Inl msg \<Rightarrow> w\<lparr>files := fs', console := before @ [saved, failed msg]\<rparr>
                    | Inr onDisk \<Rightarrow>
                        w\<lparr>files := fs', console := before @ [saved, FileSizeOnDisk (length onDisk)]\<rparr>))"
    by blast
  show ?thesis
    unfolding t by (simp add: assms(2) overwriteFile_def Let_def split: sum.splits)
qed

lemma turn_healthy:
  assumes "prepared rt emojiSize e = Inr r"
    and "bunWrite rt = overwriteFile" and "bunFileArrayBuffer rt = readFile"
  shows "\<exists>n. \<forall>w. turn rt len sv outputBaseDir emojiSize w (i, e) =
           w\<lparr>files := (files w)(filePathOf rt sv outputBaseDir e \<mapsto> r),
             console := console w @
               [Downloading (i + 1) len (emoji.name e) (url e),
                Downloaded (i + 1) (emoji.name e) n,
                Processed (i + 1) (emoji.name e) (length r),
                Saved (emoji.name e @ ''.webp'') (folder sv),
                FileSizeOnDisk (length r)]\<rparr>"
proof -
  from turn_prepared [OF assms(1), of len sv outputBaseDir i] obtain n where
    "\<forall>w. turn rt len sv outputBaseDir emojiSize w (i, e) =
           w\<lparr>files := (files w)(filePathOf rt sv outputBaseDir e \<mapsto> r),
             console := console w @
               [Downloading (i + 1) len (emoji.name e) (url e),
                Downloaded (i + 1) (emoji.name e) n,
                Processed (i + 1) (emoji.name e) (length r),
                Saved (emoji.name e @ ''.webp'') (folder sv),
                FileSizeOnDisk (length r)]\<rparr>"
    by (auto simp: assms(2,3) overwriteFile_def readFile_def Let_def)
  then show ?thesis by blast
qed


subsection \<open>The whole loop\<close>


lemma run_files_unchanged_by_failure:
  assumes "prepared rt emojiSize e = Inl msg"
  shows "files (foldl (turn rt len sv outputBaseDir emojiSize) w (xs @ [(i, e)])) =
         files (foldl (turn rt len sv outputBaseDir emojiSize) w xs)"
  by (simp add: turn_failed_files [OF assms])

lemma overwrite_run_files:
  assumes "bunWrite rt = overwriteFile"
  shows "\<exists>M. \<forall>w. files (foldl (turn rt len sv outputBaseDir emojiSize) w xs) = files w ++ M"
proof (induction xs)
  case Nil
  have "\<forall>w::world. files (foldl (turn rt len sv outputBaseDir emojiSize) w []) = files w ++ Map.empty"
    by simp
  then show ?case by blast
next
  case (Cons x xs)
  then obtain M where M: "\<And>w. files (foldl (turn rt len sv outputBaseDir emojiSize) w xs) = files w ++ M"
    by blast
  obtain i e where x: "x = (i, e)" by (cases x)
  have "\<exists>N. \<forall>w. files (turn rt len sv outputBaseDir emojiSize w x) = files w ++ N"
  proof (cases "prepared rt emojiSize e")
    case (Inl msg)
    have "\<forall>w. files (turn rt len sv outputBaseDir emojiSize w x) = files w ++ Map.empty"
      using turn_failed_files [OF Inl] x by simp
    then show ?thesis by blast
  next
    case (Inr r)
    have "\<forall>w. files (turn rt len sv outputBaseDir emojiSize w x) =
            files w ++ [filePathOf rt sv outputBaseDir e \<mapsto> r]"
      using turn_overwrite_files [OF Inr assms] x by simp
    then show ?thesis by blast
  qed
  then obtain N where N: "\<And>w. files (turn rt len sv outputBaseDir emojiSize w x) = files w ++ N"
    by blast
  have "\<forall>w. files (foldl (turn rt len sv outputBaseDir emojiSize) w (x # xs)) = files w ++ (N ++ M)"
    by (simp add: M N)
  then show ?case by blast
qed

lemma healthy_run_console:
  assumes "bunWrite rt = overwriteFile" and "bunFileArrayBuffer rt = readFile"
  shows "\<exists>D. \<forall>w. console (foldl (turn rt len sv outputBaseDir emojiSize) w xs) = console w @ D"
proof (induction xs)
  case Nil
  have "\<forall>w::world. console (foldl (turn rt len sv outputBaseDir emojiSize) w []) = console w @ []"
    by simp
  then show ?case by blast
next
  case (Cons x xs)
  then obtain D where D: "\<And>w. console (foldl (turn rt len sv outputBaseDir emojiSize) w xs) = console w @ D"
    by blast
  obtain i e where x: "x = (i, e)" by (cases x)
  have "\<exists>L. \<forall>w. console (turn rt len sv outputBaseDir emojiSize w x) = console w @ L"
  proof (cases "prepared rt emojiSize e")
    case (Inl msg)
    from turn_failed [OF Inl, of len sv outputBaseDir i] obtain ls where
      "\<And>w. turn rt len sv outputBaseDir emojiSize w (i, e) =
           w\<lparr>console := console w @ Downloading (i + 1) len (emoji.name e) (url e) # ls @
                 [FailedToProcess (i + 1) (emoji.name e) (server.name sv) msg]\<rparr>"
      by blast
    then have "\<forall>w. console (turn rt len sv outputBaseDir emojiSize w x) =
        console w @ (Downloading (i + 1) len (emoji.name e) (url e) # ls @
                 [FailedToProcess (i + 1) (emoji.name e) (server.name sv) msg])"
      using x by simp
    then show ?thesis by blast
  next
    case (Inr r)
    from turn_healthy [OF Inr assms, of len sv outputBaseDir i] obtain n where
      "\<And>w. turn rt len sv outputBaseDir emojiSize w (i, e) =
           w\<lparr>files := (files w)(filePathOf rt sv outputBaseDir e \<mapsto> r),
             console := console w @
               [Downloading (i + 1) len (emoji.name e) (url e),
                Downloaded (i + 1) (emoji.name e) n,
                Processed (i + 1) (emoji.name e) (length r),
                Saved (emoji.name e @ ''.webp'') (folder sv),
                FileSizeOnDisk (length r)]\<rparr>"
      by blast
    then have "\<forall>w. console (turn rt len sv outputBaseDir emojiSize w x) =
        console w @ [Downloading (i + 1) len (emoji.name e) (url e),
                Downloaded (i + 1) (emoji.name e) n,
                Processed (i + 1) (emoji.name e) (length r),
                Saved (emoji.name e @ ''.webp'') (folder sv),
                FileSizeOnDisk (length r)]"
      using x by simp
    then show ?thesis by blast
  qed
  then obtain L where L: "\<And>w. console (turn rt len sv outputBaseDir emojiSize w x) = console w @ L"
    by blast
  have "\<forall>w. console (foldl (turn rt len sv outputBaseDir emojiSize) w (x # xs)) = console w @ (L @ D)"
    by (simp add: D L)
  then show ?case by blast
qed


lemma newLines_append: "console w' = console w @ D \<Longrightarrow> newLines w w' = D"
  by (simp add: newLines_def)

lemma run_world:
  "downloadAndProcessEmojis rt emojis sv outputBaseDir emojiSize w =
     (Inr (), foldl (turn rt (length emojis) sv outputBaseDir emojiSize) w (enumerate 0 emojis))"
  by (simp add: downloadAndProcessEmojis_def forOf_processEntry)



text \<open>
  Claim C10. When the processing of emoji \<open>i\<close> fails before the write (a status that is
  not a success, an empty download, a throw of \<^verbatim>\<open>sharp\<close>, or an empty resized buffer),
  its turn of the loop leaves the files as they were, and the files after the turns
  \<open>0, ..., i\<close> are the files after the turns \<open>0, ..., i - 1\<close>.
\<close>

theorem failure_before_write_leaves_files:
  assumes "i < length emojis"
    and "(\<exists>resp. fetch rt (url (emojis ! i)) = Inr resp \<and> \<not> ok resp) \<or>
         (\<exists>resp. fetch rt (url (emojis ! i)) = Inr resp \<and> ok resp \<and> arrayBuffer resp = Inr []) \<or>
         (\<exists>resp buf msg. fetch rt (url (emojis ! i)) = Inr resp \<and> ok resp \<and> arrayBuffer resp = Inr buf \<and>
            buf \<noteq> [] \<and>
            sharpWebp rt buf (includes_str (url (emojis ! i)) ''animated=true'') emojiSize = Inl msg) \<or>
         (\<exists>resp buf. fetch rt (url (emojis ! i)) = Inr resp \<and> ok resp \<and> arrayBuffer resp = Inr buf \<and>
            buf \<noteq> [] \<and>
            sharpWebp rt buf (includes_str (url (emojis ! i)) ''animated=true'') emojiSize = Inr [])"
  shows "files (snd (processEntry rt (length emojis) sv outputBaseDir emojiSize (i, emojis ! i) w)) = files w \<and>
         files (snd (forOf (processEntry rt (length emojis) sv outputBaseDir emojiSize)
                  (take (Suc i) (enumerate 0 emojis)) w)) =
         files (snd (forOf (processEntry rt (length emojis) sv outputBaseDir emojiSize)
                  (take i (enumerate 0 emojis)) w))"
proof -
  let ?t = "turn rt (length emojis) sv outputBaseDir emojiSize"
  from assms(2) obtain msg where p: "prepared rt emojiSize (emojis ! i) = Inl msg"
    by (auto simp: prepared_def)
  have one: "files (?t w' (i, emojis ! i)) = files w'" for w'
    using p by (rule turn_failed_files)
  have "take (Suc i) (enumerate 0 emojis) = take i (enumerate 0 emojis) @ [(i, emojis ! i)]"
    using assms(1) by (simp add: take_Suc_conv_app_nth nth_enumerate_eq)
  then have "files (foldl ?t w (take (Suc i) (enumerate 0 emojis))) =
             files (foldl ?t w (take i (enumerate 0 emojis)))"
    by (simp add: one)
  with one [of w] show ?thesis
    by (simp add: forOf_processEntry turn_def)
qed

theorem failure_before_write_leaves_files_witness:
  "1 < length threeEmojis \<and>
   fetch exampleRuntime (url (threeEmojis ! 1)) =
     Inr \<lparr>ok = False, statusText = ''Not Found'', arrayBuffer = Inr []\<rparr> \<and>
   files (snd (processEntry exampleRuntime (length threeEmojis) exampleServer ''emojis'' 512
            (1, threeEmojis ! 1) emptyWorld)) = files emptyWorld \<and>
   files (snd (forOf (processEntry exampleRuntime (length threeEmojis) exampleServer ''emojis'' 512)
            (take (Suc 1) (enumerate 0 threeEmojis)) emptyWorld)) =
   files (snd (forOf (processEntry exampleRuntime (length threeEmojis) exampleServer ''emojis'' 512)
            (take 1 (enumerate 0 threeEmojis)) emptyWorld)) \<and>
   files (snd (forOf (processEntry exampleRuntime (length threeEmojis) exampleServer ''emojis'' 512)
            (take 1 (enumerate 0 threeEmojis)) emptyWorld)) ''emojis/Cozyhive/wave.webp'' = Some [82, 73]"
proof -
  have h1: "1 < length threeEmojis" by (simp add: threeEmojis_def)
  have f: "fetch exampleRuntime (url (threeEmojis ! 1)) =
     Inr \<lparr>ok = False, statusText = ''Not Found'', arrayBuffer = Inr []\<rparr>"
    by code_simp
  then have "\<exists>resp. fetch exampleRuntime (url (threeEmojis ! 1)) = Inr resp \<and> \<not> ok resp"
    by simp
  then have h2: "(\<exists>resp. fetch exampleRuntime (url (threeEmojis ! 1)) = Inr resp \<and> \<not> ok resp) \<or>
         (\<exists>resp. fetch exampleRuntime (url (threeEmojis ! 1)) = Inr resp \<and> ok resp \<and> arrayBuffer resp = Inr []) \<or>
         (\<exists>resp buf msg. fetch exampleRuntime (url (threeEmojis ! 1)) = Inr resp \<and> ok resp \<and> arrayBuffer resp = Inr buf \<and>
            buf \<noteq> [] \<and>
            sharpWebp exampleRuntime buf (includes_str (url (threeEmojis ! 1)) ''animated=true'') 512 = Inl msg) \<or>
         (\<exists>resp buf. fetch exampleRuntime (url (threeEmojis ! 1)) = Inr resp \<and> ok resp \<and> arrayBuffer resp = Inr buf \<and>
            buf \<noteq> [] \<and>
            sharpWebp exampleRuntime buf (includes_str (url (threeEmojis ! 1)) ''animated=true'') 512 = Inr [])"
    by (rule disjI1)
  have w: "files (snd (forOf (processEntry exampleRuntime (length threeEmojis) exampleServer ''emojis'' 512)
            (take 1 (enumerate 0 threeEmojis)) emptyWorld)) ''emojis/Cozyhive/wave.webp'' = Some [82, 73]"
    by code_simp
  show ?thesis
    using h1 f w failure_before_write_leaves_files [OF h1 h2, of exampleServer "''emojis''" emptyWorld]
    by blast
qed

text \<open>
  Claim C9. With a \<^verbatim>\<open>Bun.write\<close> that creates or replaces the file, and the same answers
  of the network and the image library, a second run over the same emojis leaves the
  files exactly as the first run left them and returns without a throw; when reading a
  file back gives its content, the second run prints the lines the first one printed,
  so it logs no failure the first did not log.
\<close>

theorem second_run_same_files:
  assumes "bunWrite rt = overwriteFile"
  shows "let w1 = snd (downloadAndProcessEmojis rt emojis sv outputBaseDir emojiSize w);
             w2 = snd (downloadAndProcessEmojis rt emojis sv outputBaseDir emojiSize w1)
         in files w2 = files w1 \<and>
            fst (downloadAndProcessEmojis rt emojis sv outputBaseDir emojiSize w1) = Inr () \<and>
            (bunFileArrayBuffer rt = readFile \<longrightarrow> newLines w1 w2 = newLines w w1)"
proof -
  let ?run = "\<lambda>w. foldl (turn rt (length emojis) sv outputBaseDir emojiSize) w (enumerate 0 emojis)"
  from overwrite_run_files [OF assms, of "length emojis" sv outputBaseDir emojiSize "enumerate 0 emojis"]
  obtain M where M: "\<And>w. files (?run w) = files w ++ M" by blast
  have "(files w ++ M) ++ M = files w ++ M"
    by (rule ext) (simp add: map_add_def split: option.splits)
  then have f: "files (?run (?run w)) = files (?run w)" by (simp add: M)
  have c: "newLines (?run w) (?run (?run w)) = newLines w (?run w)"
    if "bunFileArrayBuffer rt = readFile"
  proof -
    from healthy_run_console [OF assms that, of "length emojis" sv outputBaseDir emojiSize "enumerate 0 emojis"]
    obtain D where D: "\<And>w. console (?run w) = console w @ D" by blast
    have "newLines (?run w) (?run (?run w)) = D" using D by (rule newLines_append)
    moreover have "newLines w (?run w) = D" using D by (rule newLines_append)
    ultimately show ?thesis by simp
  qed
  show ?thesis
    unfolding run_world Let_def snd_conv fst_conv using f c by blast
qed

theorem second_run_same_files_witness:
  "bunWrite exampleRuntime = overwriteFile \<and>
   bunFileArrayBuffer exampleRuntime = readFile \<and>
   files (snd (downloadAndProcessEmojis exampleRuntime threeEmojis exampleServer ''emojis'' 512
      (snd (downloadAndProcessEmojis exampleRuntime threeEmojis exampleServer ''emojis'' 512 emptyWorld)))) =
   files (snd (downloadAndProcessEmojis exampleRuntime threeEmojis exampleServer ''emojis'' 512 emptyWorld)) \<and>
   newLines (snd (downloadAndProcessEmojis exampleRuntime threeEmojis exampleServer ''emojis'' 512 emptyWorld))
     (snd (downloadAndProcessEmojis exampleRuntime threeEmojis exampleServer ''emojis'' 512
        (snd (downloadAndProcessEmojis exampleRuntime threeEmojis exampleServer ''emojis'' 512 emptyWorld)))) =
   newLines emptyWorld (snd (downloadAndProcessEmojis exampleRuntime threeEmojis exampleServer ''emojis'' 512 emptyWorld)) \<and>
   files (snd (downloadAndProcessEmojis exampleRuntime threeEmojis exampleServer ''emojis'' 512 emptyWorld))
     ''emojis/Cozyhive/cat_face.webp'' = Some [82, 73]"
proof -
  have h1: "bunWrite exampleRuntime = overwriteFile" by (simp add: exampleRuntime_def)
  have h2: "bunFileArrayBuffer exampleRuntime = readFile" by (simp add: exampleRuntime_def)
  have c: "files (snd (downloadAndProcessEmojis exampleRuntime threeEmojis exampleServer ''emojis'' 512 emptyWorld))
     ''emojis/Cozyhive/cat_face.webp'' = Some [82, 73]"
    by code_simp
  show ?thesis
    using h1 h2 c
      second_run_same_files [OF h1, of threeEmojis exampleServer "''emojis''" 512 emptyWorld, unfolded Let_def]
    by blast
qed

text \<open>
  Claim C2, as the spec states it, fails: a thumbnail without \<^verbatim>\<open>alt\<close> text gives a
  descriptor with the empty name, and the pipeline writes it, at index 0, to
  \<^verbatim>\<open>emojis/Cozyhive/.webp\<close>; no file \<^verbatim>\<open>emojis/Cozyhive/emoji_1.webp\<close> is written.
\<close>

theorem empty_name_counterexample:
  "emoji.name (emojiDescriptor unnamedImg) = [] \<and>
   files (snd (downloadAndProcessEmojis exampleRuntime [emojiDescriptor unnamedImg] exampleServer ''emojis'' 512 emptyWorld))
     ''emojis/Cozyhive/.webp'' = Some [82, 73] \<and>
   pathJoin exampleRuntime [''emojis'', folder exampleServer, positionalFileName 0] = ''emojis/Cozyhive/emoji_1.webp'' \<and>
   files (snd (downloadAndProcessEmojis exampleRuntime [emojiDescriptor unnamedImg] exampleServer ''emojis'' 512 emptyWorld))
     ''emojis/Cozyhive/emoji_1.webp'' = None"
  by code_simp

text \<open>
  Claim C2, amended. For every emoji that gets to the write, whatever its index, the
  file is written to \<^verbatim>\<open>path.join(outputBaseDir, server.folder, name + '.webp')\<close>; the
  index has no part in the path, so for the empty name the file name is \<^verbatim>\<open>.webp\<close>.
\<close>

theorem file_named_after_emoji:
  assumes "prepared rt emojiSize e = Inr r"
  shows "files (snd (processEntry rt len sv outputBaseDir emojiSize (i, e) w)) =
           snd (bunWrite rt (pathJoin rt [outputBaseDir, folder sv, emoji.name e @ ''.webp'']) r (files w)) \<and>
         (emoji.name e = [] \<longrightarrow>
            files (snd (processEntry rt len sv outputBaseDir emojiSize (i, e) w)) =
              snd (bunWrite rt (pathJoin rt [outputBaseDir, folder sv, ''.webp'']) r (files w)))"
proof -
  from turn_prepared [OF assms, of len sv outputBaseDir i] obtain n where
    t: "turn rt len sv outputBaseDir emojiSize w (i, e) =
           (let before = console w @ [Downloading (i + 1) len (emoji.name e) (url e),
                                      Downloaded (i + 1) (emoji.name e) n,
                                      Processed (i + 1) (emoji.name e) (length r)];
                filePath = filePathOf rt sv outputBaseDir e;
                failed = (\<lambda>msg. FailedToProcess (i + 1) (emoji.name e) (server.name sv) msg);
                saved = Saved (emoji.name e @ ''.webp'') (folder sv)
            in case bunWrite rt filePath r (files w) of
                 (Some msg, fs') \<Rightarrow> w\<lparr>files := fs', console := before @ [failed msg]\<rparr>
               | (None, fs') \<Rightarrow>
                   (case bunFileArrayBuffer rt filePath fs' of
                      Inl msg \<Rightarrow> w\<lparr>files := fs', console := before @ [saved, failed msg]\<rparr>
                    | Inr onDisk \<Rightarrow>
                        w\<lparr>files := fs', console := before @ [saved, FileSizeOnDisk (length onDisk)]\<rparr>))"
    by blast
  have "files (turn rt len sv outputBaseDir emojiSize w (i, e)) =
          snd (bunWrite rt (filePathOf rt sv outputBaseDir e) r (files w))"
    unfolding t by (simp add: Let_def split: prod.splits option.splits sum.splits)
  then have "files (snd (processEntry rt len sv outputBaseDir emojiSize (i, e) w)) =
           snd (bunWrite rt (pathJoin rt [outputBaseDir, folder sv, emoji.name e @ ''.webp'']) r (files w))"
    by (simp add: turn_def filePathOf_def)
  then show ?thesis by auto
qed

theorem file_named_after_emoji_witness:
  "prepared exampleRuntime 512 (emojiDescriptor unnamedImg) = Inr [82, 73] \<and>
   emoji.name (emojiDescriptor unnamedImg) = [] \<and>
   files (snd (processEntry exampleRuntime 1 exampleServer ''emojis'' 512 (0, emojiDescriptor unnamedImg) emptyWorld)) =
     [''emojis/Cozyhive/.webp'' \<mapsto> [82, 73]]"
proof -
  have h: "prepared exampleRuntime 512 (emojiDescriptor unnamedImg) = Inr [82, 73]" by code_simp
  have n: "emoji.name (emojiDescriptor unnamedImg) = []" by code_simp
  have p: "pathJoin exampleRuntime [''emojis'', folder exampleServer, ''.webp''] = ''emojis/Cozyhive/.webp''"
    by code_simp
  have "files (snd (processEntry exampleRuntime 1 exampleServer ''emojis'' 512 (0, emojiDescriptor unnamedImg) emptyWorld)) =
          snd (bunWrite exampleRuntime (pathJoin exampleRuntime [''emojis'', folder exampleServer, ''.webp'']) [82, 73]
                (files emptyWorld))"
    using file_named_after_emoji [OF h, of 1 exampleServer "''emojis''" 0 emptyWorld] n by blast
  also have "\<dots> = [''emojis/Cozyhive/.webp'' \<mapsto> [82, 73]]"
    unfolding p by (simp add: exampleRuntime_def overwriteFile_def emptyWorld_def)
  finally show ?thesis using h n by blast
qed

text \<open>
  Claim C3, as the spec states it, fails: on a disk that keeps one byte of the two that
  were written, the run prints the size it wrote and the size it read back and nothing
  else; there is no line about the mismatch.
\<close>

theorem size_mismatch_counterexample:
  "downloadAndProcessEmojis truncatingRuntime [hd threeEmojis] exampleServer ''emojis'' 512 emptyWorld =
     (Inr (),
      \<lparr>files = [''emojis/Cozyhive/wave.webp'' \<mapsto> [82]],
       console =
         [Downloading 1 1 ''wave'' ''https://cdn.discordapp.com/emojis/1.webp?size=512&animated=true'',
          Downloaded 1 ''wave'' 3,
          Processed 1 ''wave'' 2,
          Saved ''wave.webp'' ''Cozyhive'',
          FileSizeOnDisk 1]\<rparr>)"
  by (simp add: downloadAndProcessEmojis_def enumerate_eq_zip processEntry_def tryBlock_def say_def
      truncatingRuntime_def exampleRuntime_def threeEmojis_def exampleServer_def emptyWorld_def
      readFile_def Let_def)

text \<open>
  Claim C3, amended. For every emoji whose write succeeds, the turn reads the file back.
  When that gives the content, it prints the length it read in the line
  \<open>FileSizeOnDisk\<close>, whatever that length is, compares it with nothing and prints no
  failure; when reading back throws, the \<^verbatim>\<open>catch\<close> clause prints the failure of the emoji
  and no length. In both cases the turn returns normally, and the loop goes on.
\<close>

theorem size_on_disk_only_logged:
  assumes "prepared rt emojiSize e = Inr r"
    and "bunWrite rt (filePathOf rt sv outputBaseDir e) r (files w) = (None, fs')"
  shows "\<exists>n. processEntry rt len sv outputBaseDir emojiSize (i, e) w =
           (Inr (),
            w\<lparr>files := fs',
              console := console w @
                [Downloading (i + 1) len (emoji.name e) (url e),
                 Downloaded (i + 1) (emoji.name e) n,
                 Processed (i + 1) (emoji.name e) (length r),
                 Saved (emoji.name e @ ''.webp'') (folder sv)] @
                (case bunFileArrayBuffer rt (filePathOf rt sv outputBaseDir e) fs' of
                   Inl msg \<Rightarrow> [FailedToProcess (i + 1) (emoji.name e) (server.name sv) msg]
                 | Inr onDisk \<Rightarrow> [FileSizeOnDisk (length onDisk)])\<rparr>)"
proof -
  from turn_prepared [OF assms(1), of len sv outputBaseDir i] obtain n where
    t: "turn rt len sv outputBaseDir emojiSize w (i, e) =
           (let before = console w @ [Downloading (i + 1) len (emoji.name e) (url e),
                                      Downloaded (i + 1) (emoji.name e) n,
                                      Processed (i + 1) (emoji.name e) (length r)];
                filePath = filePathOf rt sv outputBaseDir e;
                failed = (\<lambda>msg. FailedToProcess (i + 1) (emoji.name e) (server.name sv) msg);
                saved = Saved (emoji.name e @ ''.webp'') (folder sv)
            in case bunWrite rt filePath r (files w) of
                 (Some msg, fs') \<Rightarrow> w\<lparr>files := fs', console := before @ [failed msg]\<rparr>
               | (None, fs') \<Rightarrow>
                   (case bunFileArrayBuffer rt filePath fs' of
                      Inl msg \<Rightarrow> w\<lparr>files := fs', console := before @ [saved, failed msg]\<rparr>
                    | Inr onDisk \<Rightarrow>
                        w\<lparr>files := fs', console := before @ [saved, FileSizeOnDisk (length onDisk)]\<rparr>))"
    by blast
  have s: "snd (processEntry rt len sv outputBaseDir emojiSize (i, e) w) =
            w\<lparr>files := fs',
              console := console w @
                [Downloading (i + 1) len (emoji.name e) (url e),
                 Downloaded (i + 1) (emoji.name e) n,
                 Processed (i + 1) (emoji.name e) (length r),
                 Saved (emoji.name e @ ''.webp'') (folder sv)] @
                (case bunFileArrayBuffer rt (filePathOf rt sv outputBaseDir e) fs' of
                   Inl msg \<Rightarrow> [FailedToProcess (i + 1) (emoji.name e) (server.name sv) msg]
                 | Inr onDisk \<Rightarrow> [FileSizeOnDisk (length onDisk)])\<rparr>"
    using t assms(2) by (simp add: turn_def Let_def split: sum.splits)
  have "processEntry rt len sv outputBaseDir emojiSize (i, e) w =
          (Inr (), snd (processEntry rt len sv outputBaseDir emojiSize (i, e) w))"
    using processEntry_returns [of rt len sv outputBaseDir emojiSize "(i, e)" w]
    by (cases "processEntry rt len sv outputBaseDir emojiSize (i, e) w") simp
  with s show ?thesis by (intro exI [of _ n]) simp
qed

theorem size_on_disk_only_logged_witness:
  "prepared truncatingRuntime 512 (hd threeEmojis) = Inr [82, 73] \<and>
   bunWrite truncatingRuntime (filePathOf truncatingRuntime exampleServer ''emojis'' (hd threeEmojis)) [82, 73]
     (files emptyWorld) = (None, [''emojis/Cozyhive/wave.webp'' \<mapsto> [82]]) \<and>
   bunFileArrayBuffer truncatingRuntime (filePathOf truncatingRuntime exampleServer ''emojis'' (hd threeEmojis))
     [''emojis/Cozyhive/wave.webp'' \<mapsto> [82]] = Inr [82] \<and>
   (\<exists>n. processEntry truncatingRuntime 1 exampleServer ''emojis'' 512 (0, hd threeEmojis) emptyWorld =
      (Inr (),
       emptyWorld\<lparr>files := [''emojis/Cozyhive/wave.webp'' \<mapsto> [82]],
         console :=
           [Downloading 1 1 ''wave'' ''https://cdn.discordapp.com/emojis/1.webp?size=512&animated=true'',
            Downloaded 1 ''wave'' n,
            Processed 1 ''wave'' 2,
            Saved ''wave.webp'' ''Cozyhive'',
            FileSizeOnDisk 1]\<rparr>)) \<and>
   prepared unreadableRuntime 512 (hd threeEmojis) = Inr [82, 73] \<and>
   bunWrite unreadableRuntime (filePathOf unreadableRuntime exampleServer ''emojis'' (hd threeEmojis)) [82, 73]
     (files emptyWorld) = (None, [''emojis/Cozyhive/wave.webp'' \<mapsto> [82, 73]]) \<and>
   bunFileArrayBuffer unreadableRuntime (filePathOf unreadableRuntime exampleServer ''emojis'' (hd threeEmojis))
     [''emojis/Cozyhive/wave.webp'' \<mapsto> [82, 73]] = Inl ''EACCES: permission denied'' \<and>
   (\<exists>n. processEntry unreadableRuntime 1 exampleServer ''emojis'' 512 (0, hd threeEmojis) emptyWorld =
      (Inr (),
       emptyWorld\<lparr>files := [''emojis/Cozyhive/wave.webp'' \<mapsto> [82, 73]],
         console :=
           [Downloading 1 1 ''wave'' ''https://cdn.discordapp.com/emojis/1.webp?size=512&animated=true'',
            Downloaded 1 ''wave'' n,
            Processed 1 ''wave'' 2,
            Saved ''wave.webp'' ''Cozyhive'',
            FailedToProcess 1 ''wave'' ''Cozy hive'' ''EACCES: permission denied'']\<rparr>))"
proof -
  have nm: "emoji.name (hd threeEmojis) = ''wave''"
    and u: "url (hd threeEmojis) = ''https://cdn.discordapp.com/emojis/1.webp?size=512&animated=true''"
    by (simp_all add: threeEmojis_def)
  have sv: "folder exampleServer = ''Cozyhive''" "server.name exampleServer = ''Cozy hive''"
    by (simp_all add: exampleServer_def)
  have c: "console emptyWorld = []" by (simp add: emptyWorld_def)
  have h1: "prepared truncatingRuntime 512 (hd threeEmojis) = Inr [82, 73]" by code_simp
  have p: "filePathOf truncatingRuntime exampleServer ''emojis'' (hd threeEmojis) = ''emojis/Cozyhive/wave.webp''"
    by code_simp
  have h2: "bunWrite truncatingRuntime (filePathOf truncatingRuntime exampleServer ''emojis'' (hd threeEmojis)) [82, 73]
     (files emptyWorld) = (None, [''emojis/Cozyhive/wave.webp'' \<mapsto> [82]])"
    unfolding p by (simp add: truncatingRuntime_def emptyWorld_def)
  have h3: "bunFileArrayBuffer truncatingRuntime (filePathOf truncatingRuntime exampleServer ''emojis'' (hd threeEmojis))
     [''emojis/Cozyhive/wave.webp'' \<mapsto> [82]] = Inr [82]"
    unfolding p by (simp add: truncatingRuntime_def exampleRuntime_def readFile_def)
  have g1: "prepared unreadableRuntime 512 (hd threeEmojis) = Inr [82, 73]" by code_simp
  have q: "filePathOf unreadableRuntime exampleServer ''emojis'' (hd threeEmojis) = ''emojis/Cozyhive/wave.webp''"
    by code_simp
  have g2: "bunWrite unreadableRuntime (filePathOf unreadableRuntime exampleServer ''emojis'' (hd threeEmojis)) [82, 73]
     (files emptyWorld) = (None, [''emojis/Cozyhive/wave.webp'' \<mapsto> [82, 73]])"
    unfolding q by (simp add: unreadableRuntime_def exampleRuntime_def overwriteFile_def emptyWorld_def)
  have g3: "bunFileArrayBuffer unreadableRuntime (filePathOf unreadableRuntime exampleServer ''emojis'' (hd threeEmojis))
     [''emojis/Cozyhive/wave.webp'' \<mapsto> [82, 73]] = Inl ''EACCES: permission denied''"
    by (simp add: unreadableRuntime_def)
  have a: "\<exists>n. processEntry truncatingRuntime 1 exampleServer ''emojis'' 512 (0, hd threeEmojis) emptyWorld =
      (Inr (),
       emptyWorld\<lparr>files := [''emojis/Cozyhive/wave.webp'' \<mapsto> [82]],
         console :=
           [Downloading 1 1 ''wave'' ''https://cdn.discordapp.com/emojis/1.webp?size=512&animated=true'',
            Downloaded 1 ''wave'' n,
            Processed 1 ''wave'' 2,
            Saved ''wave.webp'' ''Cozyhive'',
            FileSizeOnDisk 1]\<rparr>)"
    using size_on_disk_only_logged [OF h1 h2, of 1 0] by (simp add: h3 nm u sv c numeral_2_eq_2)
  have b: "\<exists>n. processEntry unreadableRuntime 1 exampleServer ''emojis'' 512 (0, hd threeEmojis) emptyWorld =
      (Inr (),
       emptyWorld\<lparr>files := [''emojis/Cozyhive/wave.webp'' \<mapsto> [82, 73]],
         console :=
           [Downloading 1 1 ''wave'' ''https://cdn.discordapp.com/emojis/1.webp?size=512&animated=true'',
            Downloaded 1 ''wave'' n,
            Processed 1 ''wave'' 2,
            Saved ''wave.webp'' ''Cozyhive'',
            FailedToProcess 1 ''wave'' ''Cozy hive'' ''EACCES: permission denied'']\<rparr>)"
    using size_on_disk_only_logged [OF g1 g2, of 1 0] by (simp add: g3 nm u sv c numeral_2_eq_2)
  show ?thesis
    using h1 h2 h3 a g1 g2 g3 b by blast
qed


end
